theory Spec2Isabelle
  imports Complex_Main
begin

section \<open>Python floats\<close>

text \<open>
  A Python float is an IEEE-754 double: not-a-number, the two infinities, or a finite
  number. The finite doubles are the reals \<open>m * 2 ^ e\<close> with a significand \<open>m\<close> of
  at most 53 bits and an exponent \<open>e\<close> from \<open>-1074\<close> to \<open>971\<close>, subnormal numbers
  included. The result of an arithmetic operation is the exact result rounded to the
  nearest double, ties to the even significand, and an infinity when the exact result
  reaches the overflow threshold. The sign of zero is not distinguished.
\<close>

subsection \<open>Rounding to a binary format\<close>

text \<open>Rounding a real to the nearest integer, ties to even.\<close>

definition round_even :: "real \<Rightarrow> int" where
  "round_even x =
     (let f = \<lfloor>x\<rfloor>; d = x - of_int f
      in if d < 1 / 2 then f else if 1 / 2 < d then f + 1 else if even f then f else f + 1)"

text \<open>The exponent of the binade of a value, not below the least normal exponent
  \<open>emin\<close>: below it the spacing of the format stays that of the subnormal numbers.\<close>

definition binade :: "int \<Rightarrow> real \<Rightarrow> int" where
  "binade emin r = max \<lfloor>log 2 \<bar>r\<bar>\<rfloor> emin"

text \<open>Rounding to \<open>p\<close> significant bits: to the nearest multiple of the unit in the
  last place of the value's binade.\<close>

definition round_to :: "nat \<Rightarrow> int \<Rightarrow> real \<Rightarrow> real" where
  "round_to p emin r =
     (if r = 0 then 0
      else let u = 2 powr of_int (binade emin r - int p + 1)
           in of_int (round_even (r / u)) * u)"

text \<open>The finite values of the format with \<open>p\<close> significant bits and normal exponents
  from \<open>emin\<close> to \<open>emax\<close>, and the least magnitude that rounds to an infinity.\<close>

definition representable :: "nat \<Rightarrow> int \<Rightarrow> int \<Rightarrow> real \<Rightarrow> bool" where
  "representable p emin emax r \<longleftrightarrow>
     (\<exists>m e. \<bar>m\<bar> < 2 ^ p \<and> emin - int p + 1 \<le> e \<and> e \<le> emax - int p + 1
            \<and> r = of_int m * 2 powr of_int e)"

definition overflow_threshold :: "nat \<Rightarrow> int \<Rightarrow> real" where
  "overflow_threshold p emax = (2 - 2 powr (- real p)) * 2 powr of_int emax"

subsection \<open>Doubles\<close>

typedef double = "{r. representable 53 (- 1022) 1023 r}"
proof
  show "0 \<in> {r. representable 53 (- 1022) 1023 r}"
    unfolding representable_def mem_Collect_eq
    by (rule exI [of _ 0], rule exI [of _ 0]) simp
qed

text \<open>The real value of a double, and the double nearest to a real below the overflow
  threshold (what a float literal denotes).\<close>

definition dval :: "double \<Rightarrow> real" where
  "dval a = Rep_double a"

definition D :: "real \<Rightarrow> double" where
  "D r = Abs_double (round_to 53 (- 1022) r)"

instantiation double :: "{zero, one}"
begin

definition zero_double :: double where
  "zero_double = D 0"

definition one_double :: double where
  "one_double = D 1"

instance ..

end

datatype pyfloat = NaN | PInf | NInf | Fin double

datatype py_error =
    ZeroDivisionError
  | ValueError string
  | Exception string
  | SaveError string
  | IndexError
  | ReError

text \<open>The overflow thresholds of doubles and of 32-bit floats: half a unit in the
  last place above the largest finite value.\<close>

definition dbl_overflow :: real where
  "dbl_overflow = 2 ^ 1024 - 2 ^ 970"

definition flt_overflow :: real where
  "flt_overflow = 2 ^ 128 - 2 ^ 103"

text \<open>The double that an operation with exact result \<open>r\<close> returns.\<close>

definition dbl :: "real \<Rightarrow> pyfloat" where
  "dbl r = (if dbl_overflow \<le> r then PInf else if r \<le> - dbl_overflow then NInf else Fin (D r))"

text \<open>The narrowing of a double to a Java \<open>float\<close>, done when a Python float is
  passed to \<open>FloatProcessor.setf\<close>: rounding to 24 significant bits with the exponent
  range of 32-bit floats. The float is carried by the double of the same value.\<close>

fun to_float32 :: "pyfloat \<Rightarrow> pyfloat" where
  "to_float32 (Fin a) =
     (if flt_overflow \<le> dval a then PInf
      else if dval a \<le> - flt_overflow then NInf
      else Fin (D (round_to 24 (- 126) (dval a))))"
| "to_float32 v = v"

fun isnan :: "pyfloat \<Rightarrow> bool" where
  "isnan NaN = True"
| "isnan _ = False"

fun isfinite :: "pyfloat \<Rightarrow> bool" where
  "isfinite (Fin _) = True"
| "isfinite _ = False"

fun fneg :: "pyfloat \<Rightarrow> pyfloat" where
  "fneg NaN = NaN"
| "fneg PInf = NInf"
| "fneg NInf = PInf"
| "fneg (Fin a) = Fin (D (- dval a))"

fun fadd :: "pyfloat \<Rightarrow> pyfloat \<Rightarrow> pyfloat" where
  "fadd NaN _ = NaN"
| "fadd _ NaN = NaN"
| "fadd PInf NInf = NaN"
| "fadd NInf PInf = NaN"
| "fadd PInf _ = PInf"
| "fadd NInf _ = NInf"
| "fadd _ PInf = PInf"
| "fadd _ NInf = NInf"
| "fadd (Fin a) (Fin b) = dbl (dval a + dval b)"

definition fsub :: "pyfloat \<Rightarrow> pyfloat \<Rightarrow> pyfloat" where
  "fsub a b = fadd a (fneg b)"

text \<open>The sign of an infinity scaled by a finite non-zero factor.\<close>

definition signed_inf :: "bool \<Rightarrow> pyfloat" where
  "signed_inf positive = (if positive then PInf else NInf)"

fun fmul :: "pyfloat \<Rightarrow> pyfloat \<Rightarrow> pyfloat" where
  "fmul NaN _ = NaN"
| "fmul _ NaN = NaN"
| "fmul PInf PInf = PInf"
| "fmul PInf NInf = NInf"
| "fmul NInf PInf = NInf"
| "fmul NInf NInf = PInf"
| "fmul PInf (Fin b) = (if dval b = 0 then NaN else signed_inf (0 < dval b))"
| "fmul NInf (Fin b) = (if dval b = 0 then NaN else signed_inf (dval b < 0))"
| "fmul (Fin a) PInf = (if dval a = 0 then NaN else signed_inf (0 < dval a))"
| "fmul (Fin a) NInf = (if dval a = 0 then NaN else signed_inf (dval a < 0))"
| "fmul (Fin a) (Fin b) = dbl (dval a * dval b)"

text \<open>IEEE division by a non-zero divisor.\<close>

fun ieee_div :: "pyfloat \<Rightarrow> pyfloat \<Rightarrow> pyfloat" where
  "ieee_div NaN _ = NaN"
| "ieee_div _ NaN = NaN"
| "ieee_div (Fin a) (Fin b) = dbl (dval a / dval b)"
| "ieee_div (Fin a) _ = Fin 0"
| "ieee_div PInf (Fin b) = signed_inf (0 < dval b)"
| "ieee_div NInf (Fin b) = signed_inf (dval b < 0)"
| "ieee_div _ _ = NaN"

text \<open>Python's \<open>/\<close> on floats raises \<open>ZeroDivisionError\<close> whenever the divisor
  compares equal to zero, whatever the dividend.\<close>

definition fdiv :: "pyfloat \<Rightarrow> pyfloat \<Rightarrow> py_error + pyfloat" where
  "fdiv a b = (if b = Fin 0 then Inl ZeroDivisionError else Inr (ieee_div a b))"

text \<open>\<open>x ** k\<close> for the positive integer exponents the program uses, taken as the
  correctly rounded power (the library function behind it is accurate to one unit in
  the last place).\<close>

fun fpow :: "pyfloat \<Rightarrow> nat \<Rightarrow> pyfloat" where
  "fpow NaN k = NaN"
| "fpow PInf k = PInf"
| "fpow NInf k = (if even k then PInf else NInf)"
| "fpow (Fin a) k = dbl (dval a ^ k)"

text \<open>The comparison \<open><\<close>: false as soon as an operand is not-a-number.\<close>

fun flt :: "pyfloat \<Rightarrow> pyfloat \<Rightarrow> bool" where
  "flt NaN _ = False"
| "flt _ NaN = False"
| "flt PInf _ = False"
| "flt _ PInf = True"
| "flt NInf NInf = False"
| "flt NInf _ = True"
| "flt _ NInf = False"
| "flt (Fin a) (Fin b) = (dval a < dval b)"

text \<open>The built-ins \<open>min(a, b)\<close> and \<open>max(a, b)\<close> keep the first argument unless
  the second is strictly smaller (strictly larger).\<close>

definition py_min :: "pyfloat \<Rightarrow> pyfloat \<Rightarrow> pyfloat" where
  "py_min a b = (if flt b a then b else a)"

definition py_max :: "pyfloat \<Rightarrow> pyfloat \<Rightarrow> pyfloat" where
  "py_max a b = (if flt a b then b else a)"

text \<open>The comparison \<open>!=\<close>: true as soon as an operand is not-a-number.\<close>

definition py_ne :: "pyfloat \<Rightarrow> pyfloat \<Rightarrow> bool" where
  "py_ne a b \<longleftrightarrow> isnan a \<or> isnan b \<or> a \<noteq> b"

section \<open>Per-pixel conversion\<close>

definition normalize_pixel :: "pyfloat \<Rightarrow> pyfloat \<Rightarrow> pyfloat \<Rightarrow> py_error + pyfloat" where
  "normalize_pixel val lower upper =
     (case fdiv (fsub val lower) (fsub upper lower) of
        Inl e \<Rightarrow> Inl e
      | Inr nrm \<Rightarrow> Inr (py_max (Fin 0) (py_min (Fin 1) nrm)))"

definition convert_to_pH ::
  "pyfloat \<Rightarrow> pyfloat \<Rightarrow> pyfloat \<Rightarrow> pyfloat \<Rightarrow> pyfloat \<Rightarrow> pyfloat" where
  "convert_to_pH norm_val B3 B2 B1 B0 =
     fadd (fadd (fadd (fmul B3 (fpow norm_val 3)) (fmul B2 (fpow norm_val 2)))
                (fmul B1 norm_val)) B0"

section \<open>Images\<close>

text \<open>
  An image processor holds a pixel array of \<open>width * height\<close> samples, row by row.
  Samples are carried by their value as a float, whatever the bit depth.
  Processors live in a store and an \<open>ImagePlus\<close> refers to its processor, so that
  the writes of \<open>setf\<close> are visible as changes of the store.
\<close>

record ImageProcessor =
  bitDepth :: nat
  ip_width :: nat
  ip_height :: nat
  ip_pixels :: "pyfloat list"

type_synonym heap = "ImageProcessor list"

record ImagePlus =
  title :: string
  processor :: nat

definition alloc :: "heap \<Rightarrow> ImageProcessor \<Rightarrow> heap \<times> nat" where
  "alloc h p = (h @ [p], length h)"

definition duplicate :: "ImageProcessor \<Rightarrow> ImageProcessor" where
  "duplicate p = p"

definition convertToFloat :: "ImageProcessor \<Rightarrow> ImageProcessor" where
  "convertToFloat p = p\<lparr>bitDepth := 32\<rparr>"

definition FloatProcessor :: "nat \<Rightarrow> nat \<Rightarrow> ImageProcessor" where
  "FloatProcessor w hgt =
     \<lparr>bitDepth = 32, ip_width = w, ip_height = hgt, ip_pixels = replicate (w * hgt) (Fin 0)\<rparr>"

definition getf :: "heap \<Rightarrow> nat \<Rightarrow> nat \<Rightarrow> nat \<Rightarrow> py_error + pyfloat" where
  "getf h r x y =
     (let p = h ! r; i = y * ip_width p + x
      in if i < length (ip_pixels p) then Inr (ip_pixels p ! i) else Inl IndexError)"

definition setf :: "heap \<Rightarrow> nat \<Rightarrow> nat \<Rightarrow> nat \<Rightarrow> pyfloat \<Rightarrow> py_error + heap" where
  "setf h r x y v =
     (let p = h ! r; i = y * ip_width p + x
      in if i < length (ip_pixels p)
         then Inr (h[r := p\<lparr>ip_pixels := (ip_pixels p)[i := to_float32 v]\<rparr>])
         else Inl IndexError)"

text \<open>The body of the two nested loops of \<open>process_image\<close>, for one pixel.\<close>

definition pixel_step ::
  "nat \<Rightarrow> nat \<Rightarrow> pyfloat \<Rightarrow> pyfloat \<Rightarrow> pyfloat \<Rightarrow> pyfloat \<Rightarrow> pyfloat \<Rightarrow> pyfloat \<Rightarrow>
   nat \<Rightarrow> nat \<Rightarrow> heap \<Rightarrow> py_error + heap" where
  "pixel_step ip pH_ip lower upper B3 B2 B1 B0 y x h =
     (case getf h ip x y of
        Inl e \<Rightarrow> Inl e
      | Inr val \<Rightarrow>
          if isnan val \<or> val = Fin 0 then setf h pH_ip x y NaN
          else (case normalize_pixel val lower upper of
                  Inl e \<Rightarrow> Inl e
                | Inr norm_val \<Rightarrow> setf h pH_ip x y (convert_to_pH norm_val B3 B2 B1 B0)))"

fun loop_x ::
  "nat \<Rightarrow> nat \<Rightarrow> pyfloat \<Rightarrow> pyfloat \<Rightarrow> pyfloat \<Rightarrow> pyfloat \<Rightarrow> pyfloat \<Rightarrow> pyfloat \<Rightarrow>
   nat \<Rightarrow> nat list \<Rightarrow> heap \<Rightarrow> py_error + heap" where
  "loop_x ip pH_ip lower upper B3 B2 B1 B0 y [] h = Inr h"
| "loop_x ip pH_ip lower upper B3 B2 B1 B0 y (x # xs) h =
     (case pixel_step ip pH_ip lower upper B3 B2 B1 B0 y x h of
        Inl e \<Rightarrow> Inl e
      | Inr h' \<Rightarrow> loop_x ip pH_ip lower upper B3 B2 B1 B0 y xs h')"

fun loop_y ::
  "nat \<Rightarrow> nat \<Rightarrow> pyfloat \<Rightarrow> pyfloat \<Rightarrow> pyfloat \<Rightarrow> pyfloat \<Rightarrow> pyfloat \<Rightarrow> pyfloat \<Rightarrow>
   nat \<Rightarrow> nat list \<Rightarrow> heap \<Rightarrow> py_error + heap" where
  "loop_y ip pH_ip lower upper B3 B2 B1 B0 w [] h = Inr h"
| "loop_y ip pH_ip lower upper B3 B2 B1 B0 w (y # ys) h =
     (case loop_x ip pH_ip lower upper B3 B2 B1 B0 y [0..<w] h of
        Inl e \<Rightarrow> Inl e
      | Inr h' \<Rightarrow> loop_y ip pH_ip lower upper B3 B2 B1 B0 w ys h')"

definition process_image ::
  "heap \<Rightarrow> ImagePlus \<Rightarrow> pyfloat \<Rightarrow> pyfloat \<Rightarrow> pyfloat \<Rightarrow> pyfloat \<Rightarrow> pyfloat \<Rightarrow> pyfloat \<Rightarrow>
   py_error + heap \<times> ImagePlus" where
  "process_image h img lower upper B3 B2 B1 B0 =
     (let (h1, ip) = alloc h (convertToFloat (duplicate (h ! processor img)));
          w = ip_width (h1 ! ip);
          hgt = ip_height (h1 ! ip);
          (h2, pH_ip) = alloc h1 (FloatProcessor w hgt)
      in case loop_y ip pH_ip lower upper B3 B2 B1 B0 w [0..<hgt] h2 of
           Inl e \<Rightarrow> Inl e
         | Inr h3 \<Rightarrow> Inr (h3, \<lparr>title = ''pH_'' @ title img, processor = pH_ip\<rparr>))"

section \<open>Strings, paths and file-name patterns\<close>

text \<open>\<open>str(n)\<close> and \<open>"%i" % n\<close> for a non-negative integer.\<close>

definition digit_char :: "nat \<Rightarrow> char" where
  "digit_char d = ''0123456789'' ! d"

function str_nat :: "nat \<Rightarrow> string" where
  "str_nat n = (if n < 10 then [digit_char n] else str_nat (n div 10) @ [digit_char (n mod 10)])"
  by pat_completeness auto
termination
  by (relation "measure id") auto

declare str_nat.simps [simp del]

text \<open>\<open>str.lower()\<close> on the ASCII letters.\<close>

definition lower_char :: "char \<Rightarrow> char" where
  "lower_char c =
     (case map_of (zip ''ABCDEFGHIJKLMNOPQRSTUVWXYZ'' ''abcdefghijklmnopqrstuvwxyz'') c of
        Some l \<Rightarrow> l
      | None \<Rightarrow> c)"

definition lower :: "string \<Rightarrow> string" where
  "lower s = map lower_char s"

text \<open>The path functions are those of \<open>posixpath\<close>, which is \<open>os.path\<close>
  on Linux and macOS.\<close>

definition os_path_join :: "string \<Rightarrow> string \<Rightarrow> string" where
  "os_path_join a b =
     (if b \<noteq> [] \<and> hd b = CHR ''/'' then b
      else if a = [] \<or> last a = CHR ''/'' then a @ b
      else a @ ''/'' @ b)"

definition os_path_basename :: "string \<Rightarrow> string" where
  "os_path_basename p = rev (takeWhile (\<lambda>c. c \<noteq> CHR ''/'') (rev p))"

definition normcase :: "string \<Rightarrow> string" where
  "normcase s = s"

text \<open>
  \<open>fnmatch.fnmatch\<close> normalises the case of name and pattern with \<open>normcase\<close> and
  matches the name against the shell pattern: \<open>*\<close> matches everything, \<open>?\<close> one
  character, \<open>[seq]\<close> a character of \<open>seq\<close>, \<open>[!seq]\<close> a character not in it;
  a \<open>[\<close> with no closing bracket stands for itself. A reversed range in a class
  makes the regular-expression compiler raise.
\<close>

datatype cls_item = CChar char | CRange char char

datatype glob_item = GStar | GAny | GClass bool "cls_item list" | GLit char

fun cls_items :: "string \<Rightarrow> cls_item list" where
  "cls_items (a # b # c # rest) =
     (if b = CHR ''-'' then CRange a c # cls_items rest else CChar a # cls_items (b # c # rest))"
| "cls_items (a # rest) = CChar a # cls_items rest"
| "cls_items [] = []"

fun cls_item_ok :: "cls_item \<Rightarrow> bool" where
  "cls_item_ok (CChar _) = True"
| "cls_item_ok (CRange a b) = ((of_char a :: nat) \<le> of_char b)"

fun in_cls_item :: "char \<Rightarrow> cls_item \<Rightarrow> bool" where
  "in_cls_item c (CChar a) = (c = a)"
| "in_cls_item c (CRange a b) = ((of_char a :: nat) \<le> of_char c \<and> (of_char c :: nat) \<le> of_char b)"

definition make_class :: "string \<Rightarrow> glob_item" where
  "make_class stuff =
     (case stuff of
        c # rest \<Rightarrow> if c = CHR ''!'' then GClass True (cls_items rest)
                   else GClass False (cls_items stuff)
      | [] \<Rightarrow> GClass False [])"

text \<open>The search for the bracket that closes a class: an exclamation mark and then a
  closing bracket right after the opening one belong to the class.\<close>

definition split_class :: "string \<Rightarrow> (string \<times> string) option" where
  "split_class cs =
     (let (pre1, r1) = (case cs of c # r \<Rightarrow> if c = CHR ''!'' then ([c], r) else ([], cs)
                                 | [] \<Rightarrow> ([], cs));
          (pre2, r2) = (case r1 of c # r \<Rightarrow> if c = CHR '']'' then (pre1 @ [c], r) else (pre1, r1)
                                 | [] \<Rightarrow> (pre1, r1))
      in if CHR '']'' \<in> set r2
         then Some (pre2 @ takeWhile (\<lambda>c. c \<noteq> CHR '']'') r2,
                    tl (dropWhile (\<lambda>c. c \<noteq> CHR '']'') r2))
         else None)"

function translate :: "string \<Rightarrow> glob_item list" where
  "translate [] = []"
| "translate (c # cs) =
     (if c = CHR ''*'' then GStar # translate cs
      else if c = CHR ''?'' then GAny # translate cs
      else if c = CHR ''['' then
        (case split_class cs of
           None \<Rightarrow> GLit c # translate cs
         | Some (stuff, rest) \<Rightarrow> make_class stuff # translate rest)
      else GLit c # translate cs)"
  by pat_completeness auto
termination
proof (relation "measure length")
  fix c :: char and cs :: string and x2 x y
  assume "split_class cs = Some x2" and "(x, y) = x2"
  then have sc: "split_class cs = Some (x, y)" by simp
  have shorter: "length (tl (dropWhile P xs)) \<le> length xs" for P and xs :: string
    using length_dropWhile_le [of P xs] by simp
  have "length y \<le> length cs"
    using sc shorter [of "\<lambda>c. c \<noteq> CHR '']''" cs]
      shorter [of "\<lambda>c. c \<noteq> CHR '']''" "tl cs"]
      shorter [of "\<lambda>c. c \<noteq> CHR '']''" "tl (tl cs)"]
    by (auto simp: split_class_def Let_def split: list.splits if_splits)
  then show "(y, c # cs) \<in> measure length" by simp
qed auto

fun glob_item_ok :: "glob_item \<Rightarrow> bool" where
  "glob_item_ok (GClass _ items) = list_all cls_item_ok items"
| "glob_item_ok _ = True"

fun glob_match :: "glob_item list \<Rightarrow> string \<Rightarrow> bool" where
  "glob_match [] s = (s = [])"
| "glob_match (GStar # ps) [] = glob_match ps []"
| "glob_match (GStar # ps) (c # cs) = (glob_match ps (c # cs) \<or> glob_match (GStar # ps) cs)"
| "glob_match (GAny # ps) [] = False"
| "glob_match (GAny # ps) (c # cs) = glob_match ps cs"
| "glob_match (GClass neg items # ps) [] = False"
| "glob_match (GClass neg items # ps) (c # cs) =
     ((list_ex (in_cls_item c) items \<noteq> neg) \<and> glob_match ps cs)"
| "glob_match (GLit a # ps) [] = False"
| "glob_match (GLit a # ps) (c # cs) = (a = c \<and> glob_match ps cs)"

definition fnmatch :: "string \<Rightarrow> string \<Rightarrow> py_error + bool" where
  "fnmatch name pat =
     (let items = translate (normcase pat)
      in if list_all glob_item_ok items then Inr (glob_match items (normcase name))
         else Inl ReError)"

section \<open>File discovery\<close>

text \<open>A directory's content, in the order \<open>os.listdir\<close> gives it.\<close>

datatype fsnode = File string | Dir string "fsnode list"

fun dirnames :: "fsnode list \<Rightarrow> string list" where
  "dirnames [] = []"
| "dirnames (Dir n sub # rest) = n # dirnames rest"
| "dirnames (File n # rest) = dirnames rest"

fun filenames :: "fsnode list \<Rightarrow> string list" where
  "filenames [] = []"
| "filenames (File n # rest) = n # filenames rest"
| "filenames (Dir n sub # rest) = filenames rest"

text \<open>\<open>os.walk\<close>, top-down: the directory itself, then each sub-directory in turn.\<close>

fun walk :: "string \<Rightarrow> fsnode list \<Rightarrow> (string \<times> string list \<times> string list) list"
  and walk_subdirs :: "string \<Rightarrow> fsnode list \<Rightarrow> (string \<times> string list \<times> string list) list"
where
  "walk top_dir entries = (top_dir, dirnames entries, filenames entries) # walk_subdirs top_dir entries"
| "walk_subdirs top_dir [] = []"
| "walk_subdirs top_dir (File n # rest) = walk_subdirs top_dir rest"
| "walk_subdirs top_dir (Dir n sub # rest) =
     walk (os_path_join top_dir n) sub @ walk_subdirs top_dir rest"

text \<open>\<open>any(fnmatch.fnmatch(name, "*" + ext) for ext in extensions)\<close>: the
  generator stops at the first match, and an error of a test ends it.\<close>

fun any_fnmatch :: "string \<Rightarrow> string list \<Rightarrow> py_error + bool" where
  "any_fnmatch name [] = Inr False"
| "any_fnmatch name (ext # exts) =
     (case fnmatch name (''*'' @ ext) of
        Inl e \<Rightarrow> Inl e
      | Inr True \<Rightarrow> Inr True
      | Inr False \<Rightarrow> any_fnmatch name exts)"

fun select_files :: "string \<Rightarrow> string list \<Rightarrow> string list \<Rightarrow> py_error + string list" where
  "select_files dirpath [] extensions = Inr []"
| "select_files dirpath (filename # rest) extensions =
     (case any_fnmatch (lower filename) extensions of
        Inl e \<Rightarrow> Inl e
      | Inr hit \<Rightarrow>
          (case select_files dirpath rest extensions of
             Inl e \<Rightarrow> Inl e
           | Inr files \<Rightarrow>
               Inr (if hit then os_path_join dirpath filename # files else files)))"

fun collect_files ::
  "(string \<times> string list \<times> string list) list \<Rightarrow> string list \<Rightarrow> py_error + string list" where
  "collect_files [] extensions = Inr []"
| "collect_files ((dirpath, ds, fs) # rest) extensions =
     (case select_files dirpath fs extensions of
        Inl e \<Rightarrow> Inl e
      | Inr files \<Rightarrow>
          (case collect_files rest extensions of
             Inl e \<Rightarrow> Inl e
           | Inr others \<Rightarrow> Inr (files @ others)))"

text \<open>The list \<open>filteringStrings\<close> of the lower-cased extensions is computed and
  never read: the test uses \<open>extensions\<close>. A directory that cannot be listed (the
  tree is \<open>None\<close>) yields nothing.\<close>

definition getFileList :: "fsnode list option \<Rightarrow> string \<Rightarrow> string list \<Rightarrow> py_error + string list" where
  "getFileList tree directory extensions =
     (let filteringStrings = map lower extensions
      in case tree of
           None \<Rightarrow> Inr []
         | Some entries \<Rightarrow> collect_files (walk directory entries) extensions)"

section \<open>Log, collaborators and configuration\<close>

text \<open>
  What the script does to the outside, in order. \<open>Timed_log\<close> is a line of
  \<open>timed_log\<close>, without its time stamp; \<open>Timed_log_ratio\<close> is such a line ending
  in a ratio printed with six decimals.
\<close>

datatype event =
    IJ_log string
  | Timed_log string
  | Timed_log_ratio string pyfloat
  | OpenImage string
  | IJ_run string string string
  | SetMinAndMax string pyfloat pyfloat
  | SaveAs string string string
  | Print string

definition timed_log :: "string \<Rightarrow> event" where
  "timed_log message = Timed_log message"

text \<open>\<open>int(size * progress / total)\<close> is an integer division and raises when
  \<open>total\<close> is zero.\<close>

definition progress_bar :: "nat \<Rightarrow> nat \<Rightarrow> nat \<Rightarrow> string \<Rightarrow> py_error + event" where
  "progress_bar progress total_n line_number prefix =
     (let sz = 30
      in if total_n = 0 then Inl ZeroDivisionError
         else let x = sz * progress div total_n
              in Inr (IJ_log ([CHR 0x5C] @ ''Update'' @ str_nat line_number @ '':'' @ prefix
                        @ [CHR 0x09] @ ''['' @ replicate x CHR ''#'' @ replicate (sz - x) CHR ''.''
                        @ ''] '' @ str_nat progress @ ''/'' @ str_nat total_n @ [CHR 0x0D])))"

text \<open>
  The collaborators: what \<open>IJ.openImage\<close> decodes at a path (title and
  processor, \<open>None\<close> when it returns no image), the mean \<open>getStatistics\<close>
  reports, whether \<open>LutLoader.getLut\<close> finds a name, the exception \<open>IJ.saveAs\<close>
  raises at a path if any, and the tree under a directory.
\<close>

record env =
  openImage :: "string \<Rightarrow> (string \<times> ImageProcessor) option"
  stats_mean :: "ImageProcessor \<Rightarrow> pyfloat"
  getLut :: "string \<Rightarrow> bool"
  saveAs_error :: "string \<Rightarrow> py_error option"
  listing :: "string \<Rightarrow> fsnode list option"

record config =
  input_dir :: string
  output_dir :: string
  extension_ratio :: string
  calib_mode :: string
  lower_ratio :: "pyfloat option"
  upper_ratio :: "pyfloat option"
  lower_image :: "string option"
  upper_image :: "string option"
  cB3 :: pyfloat
  cB2 :: pyfloat
  cB1 :: pyfloat
  cB0 :: pyfloat
  lut_method :: string
  pH_min :: pyfloat
  pH_max :: pyfloat

section \<open>Calibration\<close>

text \<open>A function of the script gives the events it emits and then its result or the
  exception it raises.\<close>

definition get_mean_intensity :: "env \<Rightarrow> string \<Rightarrow> event list \<times> (py_error + pyfloat)" where
  "get_mean_intensity e image_path =
     (case openImage e image_path of
        None \<Rightarrow>
          ([OpenImage image_path,
            timed_log (''Error: Cannot open calibration image: '' @ image_path)],
           Inl (ValueError (''Cannot open calibration image: '' @ image_path)))
      | Some (t, p) \<Rightarrow>
          if bitDepth p \<noteq> 32 then
            ([OpenImage image_path,
              timed_log (''Error: Calibration image is not 32-bit: '' @ image_path)],
             Inl (ValueError (''Calibration image is not 32-bit: '' @ image_path)))
          else ([OpenImage image_path], Inr (stats_mean e p)))"

definition calibration :: "env \<Rightarrow> config \<Rightarrow> event list \<times> (py_error + pyfloat \<times> pyfloat)" where
  "calibration e cfg =
     (if calib_mode cfg = ''From calibration images'' then
        (case (lower_image cfg, upper_image cfg) of
           (Some lower_path, Some upper_path) \<Rightarrow>
             (case get_mean_intensity e lower_path of
                (ev1, Inl err) \<Rightarrow> (ev1, Inl err)
              | (ev1, Inr lo) \<Rightarrow>
                  (case get_mean_intensity e upper_path of
                     (ev2, Inl err) \<Rightarrow> (ev1 @ ev2, Inl err)
                   | (ev2, Inr up) \<Rightarrow>
                       (ev1 @ ev2 @
                        [IJ_log [],
                         Timed_log_ratio ''Info: Calibration image (lower pH) -> mean ratio: '' lo,
                         Timed_log_ratio ''Info: Calibration image (upper pH) -> mean ratio: '' up],
                        Inr (lo, up))))
         | _ \<Rightarrow>
             ([timed_log ''Error: Both calibration images must be provided.''],
              Inl (Exception ''Both calibration images (lower pH and upper pH) must be selected for image-based calibration.'')))
      else if calib_mode cfg = ''Manual'' then
        (case (lower_ratio cfg, upper_ratio cfg) of
           (Some lo, Some up) \<Rightarrow> ([], Inr (lo, up))
         | _ \<Rightarrow>
             ([timed_log ''Error: Both manual calibration values must be entered.''],
              Inl (Exception ''Manual calibration mode requires both lower and upper values.'')))
      else
        ([timed_log ''Invalid calibration mode selected.''],
         Inl (Exception ''Invalid calibration mode.'')))"

section \<open>The batch loop\<close>

text \<open>
  What lives across the iterations: the store of processors, the global
  \<open>lut_method\<close>, which the fallback overwrites, and the files written so far
  (a later write to a path replaces the earlier one).
\<close>

record run_state =
  store :: heap
  lut :: string
  out_files :: "string \<Rightarrow> (string \<times> ImageProcessor) option"

text \<open>The fallback of the look-up table: the name to use and the lines logged.\<close>

definition resolve_lut :: "env \<Rightarrow> string \<Rightarrow> string \<times> event list" where
  "resolve_lut e name =
     (if \<not> getLut e name then
        (if getLut e ''Green Fire Blue'' then
           (''Green Fire Blue'',
            [timed_log (''LUT '' @ [CHR 0x27] @ name @ [CHR 0x27] @ '' does not exist. Using default: ''
                        @ [CHR 0x27] @ ''Green Fire Blue'' @ [CHR 0x27])])
         else
           (''Fire'',
            [timed_log (''LUT '' @ [CHR 0x27] @ name @ [CHR 0x27] @ '' does not exist. Using default: ''
                        @ [CHR 0x27] @ ''Fire'' @ [CHR 0x27])]))
      else (name, []))"

definition calibration_bar_options :: string where
  "calibration_bar_options =
     ''location=[Upper Right] fill=White label=Black number=5 decimal=3 font=12 zoom=1 overlay''"

text \<open>One iteration of the loop over the discovered files: \<open>i\<close> counts from 1.\<close>

definition process_file ::
  "env \<Rightarrow> config \<Rightarrow> pyfloat \<Rightarrow> pyfloat \<Rightarrow> nat \<Rightarrow> run_state \<Rightarrow> nat \<Rightarrow> string \<Rightarrow>
   event list \<times> (py_error + run_state)" where
  "process_file e cfg lower_r upper_r total_files st i file =
     (let basename = os_path_basename file
      in case progress_bar i total_files 1 (''Processing: '' @ str_nat i) of
           Inl err \<Rightarrow> ([], Inl err)
         | Inr bar \<Rightarrow>
             (case openImage e file of
                None \<Rightarrow>
                  ([bar, OpenImage file, timed_log (''Info: Could not open image: '' @ basename)],
                   Inr st)
              | Some (t, p) \<Rightarrow>
                  let (h1, r) = alloc (store st) p;
                      img = \<lparr>title = t, processor = r\<rparr>
                  in if bitDepth (h1 ! r) \<noteq> 32 then
                       ([bar, OpenImage file, timed_log (''Info: Image is not 32-bit: '' @ basename)],
                        Inr (st\<lparr>store := h1\<rparr>))
                     else
                       (case process_image h1 img lower_r upper_r (cB3 cfg) (cB2 cfg) (cB1 cfg) (cB0 cfg) of
                          Inl err \<Rightarrow> ([bar, OpenImage file], Inl err)
                        | Inr (h2, pH_img) \<Rightarrow>
                            let (lut_name, lut_log) = resolve_lut e (lut st);
                                out_path = os_path_join (output_dir cfg) (title pH_img);
                                events = [bar, OpenImage file] @ lut_log @
                                  [IJ_run (title pH_img) lut_name [],
                                   SetMinAndMax (title pH_img) (pH_min cfg) (pH_max cfg),
                                   IJ_run (title pH_img) ''Calibration Bar...'' calibration_bar_options,
                                   SaveAs (title pH_img) ''Tiff'' out_path]
                            in (case saveAs_error e out_path of
                                  Some err \<Rightarrow> (events, Inl err)
                                | None \<Rightarrow>
                                    (events,
                                     Inr (st\<lparr>store := h2, lut := lut_name,
                                             out_files := (out_files st)
                                               (out_path \<mapsto> (title pH_img, h2 ! processor pH_img))\<rparr>))))))"

fun main_loop ::
  "env \<Rightarrow> config \<Rightarrow> pyfloat \<Rightarrow> pyfloat \<Rightarrow> nat \<Rightarrow> run_state \<Rightarrow> nat \<Rightarrow> string list \<Rightarrow>
   event list \<times> (py_error + run_state)" where
  "main_loop e cfg lower_r upper_r total_files st i [] = ([], Inr st)"
| "main_loop e cfg lower_r upper_r total_files st i (file # files) =
     (case process_file e cfg lower_r upper_r total_files st i file of
        (ev, Inl err) \<Rightarrow> (ev, Inl err)
      | (ev, Inr st') \<Rightarrow>
          (case main_loop e cfg lower_r upper_r total_files st' (Suc i) files of
             (ev', res) \<Rightarrow> (ev @ ev', res)))"

definition initial_state :: "config \<Rightarrow> run_state" where
  "initial_state cfg = \<lparr>store = [], lut = lut_method cfg, out_files = Map.empty\<rparr>"

definition main :: "env \<Rightarrow> config \<Rightarrow> event list \<times> (py_error + run_state)" where
  "main e cfg =
     (let start = [IJ_log ([CHR 0x5C] @ ''Clear''), timed_log ''Script starting'']
      in case calibration e cfg of
           (evc, Inl err) \<Rightarrow> (start @ evc, Inl err)
         | (evc, Inr (lower_r, upper_r)) \<Rightarrow>
             (case getFileList (listing e (input_dir cfg)) (input_dir cfg) [extension_ratio cfg] of
                Inl err \<Rightarrow> (start @ evc, Inl err)
              | Inr files \<Rightarrow>
                  (case main_loop e cfg lower_r upper_r (length files) (initial_state cfg) 1 files of
                     (evl, Inl err) \<Rightarrow> (start @ evc @ evl, Inl err)
                   | (evl, Inr st) \<Rightarrow>
                       (start @ evc @ evl @
                        [timed_log ''Script finished !'', Print ''Script finished !''],
                        Inr st))))"

section \<open>Auxiliary notions for the image loops\<close>

text \<open>What the loop body computes from one input sample, before the write.\<close>

definition sample_value ::
  "pyfloat \<Rightarrow> pyfloat \<Rightarrow> pyfloat \<Rightarrow> pyfloat \<Rightarrow> pyfloat \<Rightarrow> pyfloat \<Rightarrow> pyfloat \<Rightarrow> py_error + pyfloat" where
  "sample_value lo up B3 B2 B1 B0 s =
     (if isnan s \<or> s = Fin 0 then Inr NaN
      else case normalize_pixel s lo up of
             Inl e \<Rightarrow> Inl e
           | Inr n \<Rightarrow> Inr (convert_to_pH n B3 B2 B1 B0))"

text \<open>The two buffers of \<open>process_image\<close> while the loops run: the float copy
  of the input, never written, and the output buffer of the same dimensions.\<close>

definition bufs_ok :: "heap \<Rightarrow> nat \<Rightarrow> nat \<Rightarrow> ImageProcessor \<Rightarrow> nat \<Rightarrow> nat \<Rightarrow> bool" where
  "bufs_ok h ip pH src w hgt \<longleftrightarrow>
     ip < length h \<and> pH < length h \<and> ip \<noteq> pH \<and> h ! ip = src
     \<and> ip_width src = w \<and> length (ip_pixels src) = w * hgt
     \<and> ip_width (h ! pH) = w \<and> ip_height (h ! pH) = hgt
     \<and> length (ip_pixels (h ! pH)) = w * hgt"

text \<open>The sample written for an input sample when the body raises nothing.\<close>

definition out_px ::
  "pyfloat \<Rightarrow> pyfloat \<Rightarrow> pyfloat \<Rightarrow> pyfloat \<Rightarrow> pyfloat \<Rightarrow> pyfloat \<Rightarrow> pyfloat \<Rightarrow> pyfloat" where
  "out_px lo up B3 B2 B1 B0 s =
     (case sample_value lo up B3 B2 B1 B0 s of Inr v \<Rightarrow> to_float32 v | Inl e \<Rightarrow> NaN)"

section \<open>Notions used to state the properties of a run\<close>

text \<open>A calibration image is rejected when it cannot be opened or is not 32-bit.\<close>

definition calibration_image_rejected :: "env \<Rightarrow> string \<Rightarrow> bool" where
  "calibration_image_rejected e path =
     (case openImage e path of None \<Rightarrow> True | Some (t, p) \<Rightarrow> bitDepth p \<noteq> 32)"

text \<open>The configurations the spec lists as failing calibration.\<close>

definition calibration_invalid :: "env \<Rightarrow> config \<Rightarrow> bool" where
  "calibration_invalid e cfg \<longleftrightarrow>
     (calib_mode cfg = ''Manual'' \<and> (lower_ratio cfg = None \<or> upper_ratio cfg = None))
   \<or> (calib_mode cfg = ''From calibration images'' \<and>
        (case (lower_image cfg, upper_image cfg) of
           (Some lower_path, Some upper_path) \<Rightarrow>
             calibration_image_rejected e lower_path \<or> calibration_image_rejected e upper_path
         | _ \<Rightarrow> True))
   \<or> (calib_mode cfg \<noteq> ''Manual'' \<and> calib_mode cfg \<noteq> ''From calibration images'')"

text \<open>The events that only the batch loop emits: opening a file other than a
  calibration image, a progress line, a command run on an image, a display range, a
  save.\<close>

fun batch_event :: "config \<Rightarrow> event \<Rightarrow> bool" where
  "batch_event cfg (OpenImage p) = (Some p \<noteq> lower_image cfg \<and> Some p \<noteq> upper_image cfg)"
| "batch_event cfg (IJ_log s) = (take 7 s = [CHR 0x5C] @ ''Update'')"
| "batch_event cfg (IJ_run t c opts) = True"
| "batch_event cfg (SetMinAndMax t lo hi) = True"
| "batch_event cfg (SaveAs t f p) = True"
| "batch_event cfg _ = False"

text \<open>The progress line of iteration \<open>i\<close> of \<open>n\<close>, and the completion line.\<close>

definition progress_line :: "nat \<Rightarrow> nat \<Rightarrow> event" where
  "progress_line i n =
     (case progress_bar i n 1 (''Processing: '' @ str_nat i) of
        Inr ev \<Rightarrow> ev
      | Inl err \<Rightarrow> IJ_log [])"

definition finish_line :: event where
  "finish_line = Timed_log ''Script finished !''"

text \<open>The text of a log line, and whether a line reports the counters of the spec's
  batch result (\<open>processed\<close>, \<open>skipped\<close>).\<close>

fun event_text :: "event \<Rightarrow> string" where
  "event_text (IJ_log s) = s"
| "event_text (Timed_log s) = s"
| "event_text (Timed_log_ratio s v) = s"
| "event_text (Print s) = s"
| "event_text _ = []"

fun mentions :: "string \<Rightarrow> string \<Rightarrow> bool" where
  "mentions w [] = (w = [])"
| "mentions w (c # cs) = (take (length w) (c # cs) = w \<or> mentions w cs)"

definition reports_counts :: "event \<Rightarrow> bool" where
  "reports_counts ev \<longleftrightarrow>
     mentions ''processed'' (event_text ev) \<or> mentions ''skipped'' (event_text ev)"

text \<open>A progress line, and the opening of a file.\<close>

fun is_progress :: "event \<Rightarrow> bool" where
  "is_progress (IJ_log s) = (take 7 s = [CHR 0x5C] @ ''Update'')"
| "is_progress _ = False"

fun is_open :: "event \<Rightarrow> bool" where
  "is_open (OpenImage p) = True"
| "is_open _ = False"

section \<open>Concrete inputs\<close>

text \<open>The identity example of the spec: a row of the three samples 150, 0 and 250,
  with bounds 100 and 200 and the polynomial \<open>x\<close>.\<close>

definition demo_image :: ImageProcessor where
  "demo_image = \<lparr>bitDepth = 32, ip_width = 3, ip_height = 1,
                  ip_pixels = [Fin (D 150), Fin 0, Fin (D 250)]\<rparr>"

definition demo_env :: env where
  "demo_env = \<lparr>openImage = (\<lambda>p. if p = ''/in/a.tif'' then Some (''a.tif'', demo_image) else None),
               stats_mean = (\<lambda>p. Fin 1),
               getLut = (\<lambda>n. True),
               saveAs_error = (\<lambda>p. None),
               listing = (\<lambda>d. if d = ''/in'' then Some [File ''a.tif''] else None)\<rparr>"

definition demo_config :: config where
  "demo_config = \<lparr>input_dir = ''/in'', output_dir = ''/out'', extension_ratio = ''tif'',
     calib_mode = ''Manual'', lower_ratio = Some (Fin (D 100)), upper_ratio = Some (Fin (D 200)),
     lower_image = None, upper_image = None,
     cB3 = Fin 0, cB2 = Fin 0, cB1 = Fin 1, cB0 = Fin 0,
     lut_method = ''Fire'', pH_min = Fin (D 5), pH_max = Fin (D 7)\<rparr>"

text \<open>A single sample 1 in a one-pixel image.\<close>

definition unit_image :: ImageProcessor where
  "unit_image = \<lparr>bitDepth = 32, ip_width = 1, ip_height = 1, ip_pixels = [Fin 1]\<rparr>"

text \<open>The configuration of the example with the two manual bounds equal.\<close>

definition equal_bounds_config :: config where
  "equal_bounds_config = demo_config\<lparr>upper_ratio := Some (Fin (D 100))\<rparr>"

text \<open>A run whose lower calibration image is 8-bit.\<close>

definition bad_calibration_env :: env where
  "bad_calibration_env =
     demo_env\<lparr>openImage := (\<lambda>p. if p = ''/cal/lo.tif''
                                  then Some (''lo.tif'', demo_image\<lparr>bitDepth := 8\<rparr>)
                                  else openImage demo_env p)\<rparr>"

definition bad_calibration_config :: config where
  "bad_calibration_config =
     demo_config\<lparr>calib_mode := ''From calibration images'',
                  lower_image := Some ''/cal/lo.tif'', upper_image := Some ''/cal/hi.tif''\<rparr>"

text \<open>Two files in the input directory and a save that always fails.\<close>

definition failing_save_env :: env where
  "failing_save_env =
     \<lparr>openImage = (\<lambda>p. if p = ''/in/a.tif'' then Some (''a.tif'', demo_image)
                        else if p = ''/in/b.tif'' then Some (''b.tif'', demo_image) else None),
      stats_mean = (\<lambda>p. Fin 1),
      getLut = (\<lambda>n. True),
      saveAs_error = (\<lambda>p. Some (SaveError ''cannot write'')),
      listing = (\<lambda>d. if d = ''/in'' then Some [File ''a.tif'', File ''b.tif''] else None)\<rparr>"

text \<open>The batch scenario of the spec: \<open>A.tif\<close> is 16-bit, \<open>B.tif\<close> does not
  open, \<open>C.tif\<close> is a valid 32-bit image.\<close>

definition three_files_env :: env where
  "three_files_env =
     \<lparr>openImage = (\<lambda>p. if p = ''/in/A.tif'' then Some (''A.tif'', demo_image\<lparr>bitDepth := 16\<rparr>)
                        else if p = ''/in/C.tif'' then Some (''C.tif'', demo_image) else None),
      stats_mean = (\<lambda>p. Fin 1),
      getLut = (\<lambda>n. True),
      saveAs_error = (\<lambda>p. None),
      listing = (\<lambda>d. if d = ''/in''
                       then Some [File ''A.tif'', File ''B.tif'', File ''C.tif''] else None)\<rparr>"

text \<open>Two sub-directories, each holding a file \<open>a.tif\<close>.\<close>

definition two_dirs_env :: env where
  "two_dirs_env =
     \<lparr>openImage = (\<lambda>p. if p = ''/in/x/a.tif'' then Some (''a.tif'', demo_image)
                        else if p = ''/in/y/a.tif'' then Some (''a.tif'', unit_image) else None),
      stats_mean = (\<lambda>p. Fin 1),
      getLut = (\<lambda>n. True),
      saveAs_error = (\<lambda>p. None),
      listing = (\<lambda>d. if d = ''/in''
                       then Some [Dir ''x'' [File ''a.tif''], Dir ''y'' [File ''a.tif'']]
                       else None)\<rparr>"



section \<open>The specification's reading of normalisation\<close>

text \<open>The spec's words for \<open>normalize\<close>, over the reals: the quotient
  \<open>(value - lower) / (upper - lower)\<close>, clamped to the unit interval.\<close>

definition normalize_spec :: "real \<Rightarrow> real \<Rightarrow> real \<Rightarrow> real" where
  "normalize_spec v l u = max 0 (min 1 ((v - l) / (u - l)))"

section \<open>Properties of rounding\<close>

lemma round_even_upper: "of_int (round_even x) \<le> x + 1 / 2"
  unfolding round_even_def Let_def by (auto; linarith)

lemma round_even_lower: "x - 1 / 2 \<le> of_int (round_even x)"
  unfolding round_even_def Let_def by (auto; linarith)

lemma round_even_of_int [simp]: "round_even (of_int k) = k"
  by (simp add: round_even_def)

lemma round_even_le: "x \<le> of_int n \<Longrightarrow> round_even x \<le> n"
proof -
  assume a: "x \<le> of_int n"
  then have f: "\<lfloor>x\<rfloor> \<le> n" by (simp add: floor_le_iff)
  show ?thesis
  proof (cases "\<lfloor>x\<rfloor> = n")
    case True
    then have "x = of_int n" using a by linarith
    then show ?thesis by simp
  next
    case False
    with f have "\<lfloor>x\<rfloor> + 1 \<le> n" by simp
    then show ?thesis unfolding round_even_def Let_def by auto
  qed
qed

lemma round_even_ge: "of_int n \<le> x \<Longrightarrow> n \<le> round_even x"
proof -
  assume "of_int n \<le> x"
  then have "n \<le> \<lfloor>x\<rfloor>" by (simp add: le_floor_iff)
  then show ?thesis unfolding round_even_def Let_def by auto
qed

lemma two_powr_int_pos [simp]: "0 < (2::real) powr x"
  by simp

lemma two_powr_nat: "0 \<le> k \<Longrightarrow> (2::real) powr of_int k = of_int (2 ^ nat k)"
  by (simp add: powr_int)

lemma two_powr_mono: "a \<le> b \<Longrightarrow> (2::real) powr of_int a \<le> 2 powr of_int b"
  by (simp add: powr_mono)

lemma floor_log2: "r \<noteq> 0 \<Longrightarrow>
    2 powr of_int \<lfloor>log 2 \<bar>r\<bar>\<rfloor> \<le> \<bar>r\<bar> \<and> \<bar>r\<bar> < 2 powr of_int (\<lfloor>log 2 \<bar>r\<bar>\<rfloor> + 1)"
  using floor_log_eq_powr_iff [of "\<bar>r\<bar>" 2 "\<lfloor>log 2 \<bar>r\<bar>\<rfloor>"] by simp

lemma floor_log2_less: "r \<noteq> 0 \<Longrightarrow> \<bar>r\<bar> < 2 powr of_int k \<Longrightarrow> \<lfloor>log 2 \<bar>r\<bar>\<rfloor> < k"
proof -
  assume r: "r \<noteq> 0" and b: "\<bar>r\<bar> < 2 powr of_int k"
  have "(2::real) powr of_int \<lfloor>log 2 \<bar>r\<bar>\<rfloor> < 2 powr of_int k"
    using floor_log2 [OF r] b by linarith
  then show ?thesis by simp
qed

lemma floor_log2_ge: "r \<noteq> 0 \<Longrightarrow> 2 powr of_int k \<le> \<bar>r\<bar> \<Longrightarrow> k \<le> \<lfloor>log 2 \<bar>r\<bar>\<rfloor>"
proof -
  assume r: "r \<noteq> 0" and b: "2 powr of_int k \<le> \<bar>r\<bar>"
  have "(2::real) powr of_int k < 2 powr of_int (\<lfloor>log 2 \<bar>r\<bar>\<rfloor> + 1)"
    using floor_log2 [OF r] b by linarith
  then have "k < \<lfloor>log 2 \<bar>r\<bar>\<rfloor> + 1" by simp
  then show ?thesis by simp
qed

lemma two_powr_div: "(2::real) powr of_int a / 2 powr of_int b = 2 powr of_int (a - b)"
  by (simp add: powr_diff)

text \<open>Exactly representable values are not changed by rounding.\<close>

lemma round_to_representable:
  assumes "representable p emin emax r" and "1 \<le> p"
  shows "round_to p emin r = r"
proof (cases "r = 0")
  case True
  then show ?thesis by (simp add: round_to_def)
next
  case False
  from assms(1) obtain m e where m: "\<bar>m\<bar> < 2 ^ p" and e: "emin - int p + 1 \<le> e"
    and r: "r = of_int m * 2 powr of_int e"
    unfolding representable_def by blast
  let ?q = "binade emin r - int p + 1"
  have "\<bar>r\<bar> < 2 powr of_int (int p + e)"
  proof -
    have "\<bar>r\<bar> = of_int \<bar>m\<bar> * 2 powr of_int e" by (simp add: r abs_mult)
    also have "\<dots> < of_int (2 ^ p) * 2 powr of_int e"
    proof -
      have "real_of_int \<bar>m\<bar> < real_of_int (2 ^ p)" using m by (simp only: of_int_less_iff)
      then show ?thesis by (intro mult_strict_right_mono) simp_all
    qed
    also have "\<dots> = 2 powr of_int (int p + e)"
      by (simp add: powr_add powr_realpow)
    finally show ?thesis .
  qed
  from floor_log2_less [OF False this] have "\<lfloor>log 2 \<bar>r\<bar>\<rfloor> - int p + 1 \<le> e" by simp
  with e have q: "?q \<le> e" by (simp add: binade_def max_def)
  define d where "d = e - ?q"
  have d: "0 \<le> d" using q by (simp add: d_def)
  have "r / 2 powr of_int ?q = of_int m * (2 powr of_int e / 2 powr of_int ?q)"
    by (simp add: r)
  also have "2 powr of_int e / 2 powr of_int ?q = (2::real) powr of_int d"
    unfolding d_def by (rule two_powr_div)
  also have "\<dots> = of_int (2 ^ nat d)" using d by (rule two_powr_nat)
  finally have int: "r / 2 powr of_int ?q = of_int (m * 2 ^ nat d)" by simp
  have "round_to p emin r = of_int (round_even (r / 2 powr of_int ?q)) * 2 powr of_int ?q"
    using False by (simp add: round_to_def Let_def)
  also have "\<dots> = (r / 2 powr of_int ?q) * 2 powr of_int ?q"
    unfolding int round_even_of_int ..
  also have "\<dots> = r" by simp
  finally show ?thesis .
qed

lemma round_to_scaled:
  assumes "r \<noteq> 0"
  shows "round_to p emin r =
     of_int (round_even (r / 2 powr of_int (binade emin r - int p + 1)))
       * 2 powr of_int (binade emin r - int p + 1)"
  using assms by (simp add: round_to_def Let_def)

lemma binade_ge: "emin \<le> binade emin r"
  by (simp add: binade_def)

lemma binade_upper: "r \<noteq> 0 \<Longrightarrow> \<bar>r\<bar> < 2 powr of_int (binade emin r + 1)"
proof -
  assume r: "r \<noteq> 0"
  have "\<bar>r\<bar> < 2 powr of_int (\<lfloor>log 2 \<bar>r\<bar>\<rfloor> + 1)" using floor_log2 [OF r] by simp
  also have "\<dots> \<le> 2 powr of_int (binade emin r + 1)"
    by (rule two_powr_mono) (simp add: binade_def)
  finally show ?thesis .
qed

text \<open>The unit in the last place of a value's binade does not exceed a value that is at
  least the smallest positive representable number.\<close>

lemma ulp_le:
  assumes "r \<noteq> 0" and "1 \<le> p" and "2 powr of_int (emin - int p + 1) \<le> \<bar>r\<bar>"
  shows "2 powr of_int (binade emin r - int p + 1) \<le> \<bar>r\<bar>"
proof (cases "emin \<le> \<lfloor>log 2 \<bar>r\<bar>\<rfloor>")
  case True
  then have b: "binade emin r = \<lfloor>log 2 \<bar>r\<bar>\<rfloor>" by (simp add: binade_def)
  have "(2::real) powr of_int (binade emin r - int p + 1) \<le> 2 powr of_int \<lfloor>log 2 \<bar>r\<bar>\<rfloor>"
    unfolding b using assms(2) by (intro two_powr_mono) simp
  also have "\<dots> \<le> \<bar>r\<bar>" using floor_log2 [OF assms(1)] by simp
  finally show ?thesis .
next
  case False
  then have "binade emin r = emin" by (simp add: binade_def)
  then show ?thesis using assms(3) by simp
qed

lemma round_to_nonzero:
  assumes "1 \<le> p" and "2 powr of_int (emin - int p + 1) \<le> \<bar>r\<bar>"
  shows "round_to p emin r \<noteq> 0"
proof -
  have r: "r \<noteq> 0" using assms(2) by (cases "r = 0") (simp_all add: not_le)
  let ?u = "(2::real) powr of_int (binade emin r - int p + 1)"
  have u: "?u \<le> \<bar>r\<bar>" using r assms by (rule ulp_le)
  have "round_even (r / ?u) \<noteq> 0"
  proof (cases "0 < r")
    case True
    with u have "of_int 1 \<le> r / ?u" by (simp add: le_divide_eq)
    from round_even_ge [OF this] show ?thesis by simp
  next
    case False
    with r u have "r / ?u \<le> of_int (- 1)" by (simp add: divide_le_eq)
    from round_even_le [OF this] show ?thesis by simp
  qed
  then show ?thesis by (simp add: round_to_scaled [OF r])
qed

text \<open>Representable values are integer multiples of the smallest positive one.\<close>

lemma representable_grid:
  assumes "representable p emin emax r"
  shows "\<exists>k. r = of_int k * 2 powr of_int (emin - int p + 1)"
proof -
  from assms obtain m e where e: "emin - int p + 1 \<le> e" and r: "r = of_int m * 2 powr of_int e"
    unfolding representable_def by blast
  define d where "d = e - (emin - int p + 1)"
  have d: "0 \<le> d" using e by (simp add: d_def)
  have "(2::real) powr of_int e = 2 powr of_int d * 2 powr of_int (emin - int p + 1)"
    unfolding d_def powr_add [symmetric] by simp
  also have "(2::real) powr of_int d = of_int (2 ^ nat d)" using d by (rule two_powr_nat)
  finally have "r = of_int (m * 2 ^ nat d) * 2 powr of_int (emin - int p + 1)"
    by (simp add: r)
  then show ?thesis ..
qed

lemma representable_diff_nonzero:
  assumes "representable p emin emax a" and "representable p emin emax b" and "a \<noteq> b"
    and "1 \<le> p"
  shows "round_to p emin (a - b) \<noteq> 0"
proof -
  let ?g = "(2::real) powr of_int (emin - int p + 1)"
  from representable_grid [OF assms(1)] obtain ka where a: "a = of_int ka * ?g" ..
  from representable_grid [OF assms(2)] obtain kb where b: "b = of_int kb * ?g" ..
  have d: "a - b = of_int (ka - kb) * ?g" by (simp add: a b algebra_simps)
  have "ka \<noteq> kb" using assms(3) a b by auto
  then have "1 \<le> \<bar>ka - kb\<bar>" by simp
  then have "(1::real) \<le> \<bar>of_int (ka - kb)\<bar>"
    by (metis of_int_1_le_iff of_int_abs)
  then have "1 * ?g \<le> \<bar>of_int (ka - kb)\<bar> * ?g"
    by (intro mult_right_mono) simp_all
  then have "?g \<le> \<bar>a - b\<bar>" by (simp add: d abs_mult)
  with assms(4) show ?thesis by (rule round_to_nonzero)
qed

lemma overflow_threshold_less: "overflow_threshold p emax < 2 powr of_int (emax + 1)"
proof -
  have "(2 - 2 powr (- real p)) * 2 powr of_int emax < 2 * 2 powr of_int emax"
    by (intro mult_strict_right_mono) simp_all
  also have "\<dots> = 2 powr of_int (emax + 1)" by (simp add: powr_add)
  finally show ?thesis by (simp add: overflow_threshold_def)
qed

lemma representable_zero: "emin \<le> emax \<Longrightarrow> representable p emin emax 0"
  unfolding representable_def
  by (rule exI [of _ 0], rule exI [of _ "emin - int p + 1"]) simp

text \<open>Below the overflow threshold the rounded value is representable.\<close>

lemma round_to_is_representable:
  assumes "1 \<le> p" and "emin \<le> emax" and "\<bar>r\<bar> < overflow_threshold p emax"
  shows "representable p emin emax (round_to p emin r)"
proof (cases "r = 0")
  case True
  then show ?thesis using representable_zero [OF assms(2)] by (simp add: round_to_def)
next
  case False
  let ?E = "binade emin r"
  let ?q = "?E - int p + 1"
  let ?u = "(2::real) powr of_int ?q"
  let ?k = "round_even (r / ?u)"
  have dval: "round_to p emin r = of_int ?k * ?u" using False by (rule round_to_scaled)
  have upos: "0 < ?u" by simp
  have Emax: "?E \<le> emax"
  proof -
    have "\<bar>r\<bar> < 2 powr of_int (emax + 1)"
      using assms(3) overflow_threshold_less [of p emax] by linarith
    from floor_log2_less [OF False this] assms(2) show ?thesis by (simp add: binade_def)
  qed
  have pw: "(2::real) powr of_int (?E + 1) / ?u = of_int (2 ^ p)"
  proof -
    have "(2::real) powr of_int (?E + 1) / ?u = 2 powr of_int (?E + 1 - ?q)" by (rule two_powr_div)
    also have "?E + 1 - ?q = int p" by simp
    also have "(2::real) powr of_int (int p) = of_int (2 ^ p)" by (simp add: powr_realpow)
    finally show ?thesis .
  qed
  have lt: "\<bar>r\<bar> / ?u < of_int (2 ^ p)"
  proof -
    have "\<bar>r\<bar> / ?u < 2 powr of_int (?E + 1) / ?u"
      using binade_upper [OF False, of emin] upos by (simp add: divide_strict_right_mono)
    then show ?thesis using pw by simp
  qed
  have absdiv: "\<bar>r / ?u\<bar> = \<bar>r\<bar> / ?u" by simp
  have neg: "real_of_int (- (2 ^ p)) = - real_of_int (2 ^ p)" by simp
  have bnd: "r / ?u \<le> real_of_int (2 ^ p)" "real_of_int (- (2 ^ p)) \<le> r / ?u"
    unfolding neg using lt absdiv by linarith+
  have k_le: "?k \<le> 2 ^ p" using bnd(1) by (rule round_even_le)
  have k_ge: "- (2 ^ p) \<le> ?k" using bnd(2) by (rule round_even_ge)
  have qmin: "emin - int p + 1 \<le> ?q" using binade_ge [of emin r] by simp
  have qmax: "?q \<le> emax - int p + 1" using Emax by simp
  show ?thesis
  proof (cases "\<bar>?k\<bar> < 2 ^ p")
    case True
    with qmin qmax dval show ?thesis unfolding representable_def by blast
  next
    case edge: False
    with k_le k_ge have kk: "?k = 2 ^ p \<or> ?k = - (2 ^ p)" by linarith
    have Elt: "?E < emax"
    proof (rule ccontr)
      assume "\<not> ?E < emax"
      with Emax have E: "?E = emax" by simp
      have "\<bar>r\<bar> / ?u < overflow_threshold p emax / ?u"
        using assms(3) upos by (simp add: divide_strict_right_mono)
      also have "overflow_threshold p emax / ?u = (2 - 2 powr (- real p)) * (2 powr of_int emax / ?u)"
        by (simp add: overflow_threshold_def)
      also have "2 powr of_int emax / ?u = (2::real) powr of_int (emax - ?q)" by (rule two_powr_div)
      also have "emax - ?q = int p - 1" using E by simp
      also have "(2 - 2 powr (- real p)) * 2 powr of_int (int p - 1) = 2 powr real p - 1 / 2"
      proof -
        have a: "(2::real) powr of_int (int p - 1) = 2 powr real p / 2"
          by (simp add: powr_diff)
        have b: "(2::real) powr (- real p) * 2 powr real p = 1"
          by (simp add: powr_add [symmetric])
        show ?thesis unfolding a using b by (simp add: algebra_simps)
      qed
      finally have small: "\<bar>r\<bar> / ?u < 2 ^ p - 1 / 2" by (simp add: powr_realpow)
      have "real_of_int ?k \<le> r / ?u + 1 / 2" by (rule round_even_upper)
      moreover have "r / ?u - 1 / 2 \<le> real_of_int ?k" by (rule round_even_lower)
      ultimately have "\<bar>real_of_int ?k\<bar> < 2 ^ p" using small absdiv by linarith
      then have "\<bar>?k\<bar> < 2 ^ p"
        by (metis of_int_abs of_int_less_iff of_int_numeral of_int_power)
      with edge show False by simp
    qed
    have p1: "(2::int) ^ p = 2 * 2 ^ (p - 1)" using assms(1) by (cases p) simp_all
    have shift: "(2::real) powr of_int (?q + 1) = 2 * ?u" by (simp add: powr_add)
    from kk show ?thesis
    proof
      assume k: "?k = 2 ^ p"
      have "round_to p emin r = of_int (2 ^ (p - 1)) * 2 powr of_int (?q + 1)"
        unfolding dval k shift using p1 by simp
      moreover have "\<bar>(2::int) ^ (p - 1)\<bar> < 2 ^ p" using assms(1) by (simp add: p1)
      moreover have "emin - int p + 1 \<le> ?q + 1" using qmin by simp
      moreover have "?q + 1 \<le> emax - int p + 1" using Elt by simp
      ultimately show ?thesis unfolding representable_def by blast
    next
      assume k: "?k = - (2 ^ p)"
      have "round_to p emin r = of_int (- (2 ^ (p - 1))) * 2 powr of_int (?q + 1)"
        unfolding dval k shift using p1 by simp
      moreover have "\<bar>- ((2::int) ^ (p - 1))\<bar> < 2 ^ p" using assms(1) by (simp add: p1)
      moreover have "emin - int p + 1 \<le> ?q + 1" using qmin by simp
      moreover have "?q + 1 \<le> emax - int p + 1" using Elt by simp
      ultimately show ?thesis unfolding representable_def by blast
    qed
  qed
qed

lemma round_to_nonneg:
  assumes "0 \<le> r"
  shows "0 \<le> round_to p emin r"
proof (cases "r = 0")
  case True
  then show ?thesis by (simp add: round_to_def)
next
  case False
  let ?u = "(2::real) powr of_int (binade emin r - int p + 1)"
  have "of_int 0 \<le> r / ?u" using assms by simp
  from round_even_ge [OF this] show ?thesis
    by (simp add: round_to_scaled [OF False])
qed

lemma round_to_le_one:
  assumes "1 \<le> p" and "emin \<le> 0" and "r \<le> 1"
  shows "round_to p emin r \<le> 1"
proof (cases "r \<le> 0")
  case True
  show ?thesis
  proof (cases "r = 0")
    case True
    then show ?thesis by (simp add: round_to_def)
  next
    case False
    let ?u = "(2::real) powr of_int (binade emin r - int p + 1)"
    have "r / ?u \<le> of_int 0" using True by (simp add: divide_le_0_iff)
    from round_even_le [OF this] have "round_to p emin r \<le> 0"
      by (simp add: round_to_scaled [OF False] mult_le_0_iff)
    then show ?thesis by simp
  qed
next
  case False
  then have r: "r \<noteq> 0" and rpos: "0 < r" by simp_all
  let ?q = "binade emin r - int p + 1"
  let ?u = "(2::real) powr of_int ?q"
  have "\<bar>r\<bar> < 2 powr of_int 1" using assms(3) rpos by simp
  then have fl: "\<lfloor>log 2 \<bar>r\<bar>\<rfloor> < 1" by (rule floor_log2_less [OF r])
  have "binade emin r \<le> 0" unfolding binade_def using fl assms(2) by linarith
  with assms(1) have q: "?q \<le> 0" by linarith
  define N :: int where "N = 2 ^ nat (- ?q)"
  have "1 / ?u = (2::real) powr of_int 0 / ?u" by simp
  also have "\<dots> = 2 powr of_int (- ?q)" using two_powr_div [of 0 ?q] by simp
  also have "\<dots> = of_int N" unfolding N_def by (rule two_powr_nat) (use q in simp)
  finally have N: "1 / ?u = of_int N" .
  have "r / ?u \<le> 1 / ?u" using assms(3) by (simp add: divide_right_mono)
  then have "r / ?u \<le> of_int N" using N by simp
  from round_even_le [OF this]
  have "of_int (round_even (r / ?u)) * ?u \<le> of_int N * ?u"
    by (intro mult_right_mono) simp_all
  also have "of_int N * ?u = 1" using N by (simp add: field_simps)
  finally show ?thesis by (simp add: round_to_scaled [OF r])
qed

lemma representable_bound:
  assumes "representable p emin emax r" and "1 \<le> p"
  shows "\<bar>r\<bar> < overflow_threshold p emax"
proof -
  from assms(1) obtain m e where m: "\<bar>m\<bar> < 2 ^ p" and e: "e \<le> emax - int p + 1"
    and r: "r = of_int m * 2 powr of_int e"
    unfolding representable_def by blast
  have m1: "real_of_int \<bar>m\<bar> \<le> 2 ^ p - 1"
  proof -
    from m have "\<bar>m\<bar> \<le> 2 ^ p - 1" by simp
    then have "real_of_int \<bar>m\<bar> \<le> real_of_int (2 ^ p - 1)" by (simp only: of_int_le_iff)
    then show ?thesis by simp
  qed
  have "\<bar>r\<bar> = real_of_int \<bar>m\<bar> * 2 powr of_int e" by (simp add: r abs_mult)
  also have "\<dots> \<le> (2 ^ p - 1) * 2 powr of_int e"
    using m1 by (intro mult_right_mono) simp_all
  also have "\<dots> \<le> (2 ^ p - 1) * 2 powr of_int (emax - int p + 1)"
    using e by (intro mult_left_mono two_powr_mono) simp_all
  also have "(2::real) powr of_int (emax - int p + 1) = 2 powr of_int emax * 2 powr (1 - real p)"
  proof -
    have "real_of_int (emax - int p + 1) = real_of_int emax + (1 - real p)" by simp
    then show ?thesis by (simp only: powr_add)
  qed
  also have "(2 ^ p - 1) * (2 powr of_int emax * 2 powr (1 - real p))
      = (2 - 2 powr (1 - real p)) * 2 powr of_int emax"
  proof -
    have "(2::real) ^ p * 2 powr (1 - real p) = 2"
      by (simp add: powr_realpow [symmetric] powr_add [symmetric])
    then show ?thesis by (simp add: algebra_simps)
  qed
  also have "\<dots> < (2 - 2 powr (- real p)) * 2 powr of_int emax"
    by (intro mult_strict_right_mono) simp_all
  finally show ?thesis by (simp add: overflow_threshold_def)
qed

lemma representable_wider:
  assumes "representable p emin emax r" and "p \<le> p'" and "emin' - int p' \<le> emin - int p"
    and "emax - int p \<le> emax' - int p'"
  shows "representable p' emin' emax' r"
proof -
  from assms(1) obtain m e where m: "\<bar>m\<bar> < 2 ^ p" and e: "emin - int p + 1 \<le> e"
    "e \<le> emax - int p + 1" and r: "r = of_int m * 2 powr of_int e"
    unfolding representable_def by blast
  have "(2::int) ^ p \<le> 2 ^ p'" using assms(2) by (simp add: power_increasing)
  with m have "\<bar>m\<bar> < 2 ^ p'" by linarith
  moreover have "emin' - int p' + 1 \<le> e" "e \<le> emax' - int p' + 1"
    using e assms(3,4) by linarith+
  ultimately show ?thesis using r unfolding representable_def by blast
qed

lemma representable_neg: "representable p emin emax r \<Longrightarrow> representable p emin emax (- r)"
  unfolding representable_def
  by (elim exE conjE) (rule_tac x = "- m" in exI, rule_tac x = e in exI, simp)

lemma representable_int:
  assumes "\<bar>k\<bar> < 2 ^ p" and "emin - int p + 1 \<le> 0" and "0 \<le> emax - int p + 1"
  shows "representable p emin emax (of_int k)"
  unfolding representable_def
  by (rule exI [of _ k], rule exI [of _ 0]) (use assms in simp)

section \<open>Properties of doubles\<close>

lemma dbl_overflow_eq: "overflow_threshold 53 1023 = dbl_overflow"
  by (simp add: overflow_threshold_def dbl_overflow_def powr_minus)

lemma flt_overflow_eq: "overflow_threshold 24 127 = flt_overflow"
  by (simp add: overflow_threshold_def flt_overflow_def powr_minus)

lemma dval_representable: "representable 53 (- 1022) 1023 (dval a)"
  using Rep_double [of a] by (simp add: dval_def)

lemma dval_D: "\<bar>r\<bar> < dbl_overflow \<Longrightarrow> dval (D r) = round_to 53 (- 1022) r"
proof -
  assume "\<bar>r\<bar> < dbl_overflow"
  then have "\<bar>r\<bar> < overflow_threshold 53 1023" by (simp add: dbl_overflow_eq)
  then have "representable 53 (- 1022) 1023 (round_to 53 (- 1022) r)"
    by (intro round_to_is_representable) simp_all
  then show ?thesis by (simp add: dval_def D_def Abs_double_inverse)
qed

lemma dval_bound: "\<bar>dval a\<bar> < dbl_overflow"
  using representable_bound [OF dval_representable, of a] by (simp add: dbl_overflow_eq)

lemma dval_D_exact: "representable 53 (- 1022) 1023 r \<Longrightarrow> dval (D r) = r"
proof -
  assume r: "representable 53 (- 1022) 1023 r"
  then have "\<bar>r\<bar> < dbl_overflow"
    using representable_bound [OF r] by (simp add: dbl_overflow_eq)
  then show ?thesis using round_to_representable [OF r] by (simp add: dval_D)
qed

lemma D_val [simp]: "D (dval a) = a"
  using round_to_representable [OF dval_representable, of a]
  by (simp add: D_def dval_def Rep_double_inverse)

lemma dval_inject: "dval a = dval b \<longleftrightarrow> a = b"
  by (simp add: dval_def Rep_double_inject)

lemma dval_of_int: "\<bar>k\<bar> < 2 ^ 53 \<Longrightarrow> dval (D (of_int k)) = of_int k"
  by (rule dval_D_exact, rule representable_int) simp_all

lemma dval_zero [simp]: "dval 0 = 0"
  using dval_of_int [of 0] by (simp add: zero_double_def)

lemma dval_one [simp]: "dval 1 = 1"
  using dval_of_int [of 1] by (simp add: one_double_def)

lemma dval_numeral: "\<bar>numeral k :: int\<bar> < 2 ^ 53 \<Longrightarrow> dval (D (numeral k)) = numeral k"
  using dval_of_int [of "numeral k"] by simp


section \<open>Properties of the per-pixel conversion\<close>

lemma dbl_overflow_pos: "1 < dbl_overflow"
  unfolding dbl_overflow_def by simp

lemma flt_below_dbl: "flt_overflow < dbl_overflow"
  unfolding flt_overflow_def dbl_overflow_def by simp

lemma dbl_small: "\<bar>r\<bar> < dbl_overflow \<Longrightarrow> dbl r = Fin (D r)"
  by (auto simp: dbl_def)

lemma dbl_dval [simp]: "dbl (dval a) = Fin a"
  using dval_bound [of a] by (simp add: dbl_small)

lemma dbl_zero [simp]: "dbl 0 = Fin 0"
  using dbl_dval [of 0] by simp

lemma dbl_one [simp]: "dbl 1 = Fin 1"
  using dbl_dval [of 1] by simp

lemma dbl_not_NaN [simp]: "dbl r \<noteq> NaN"
  by (simp add: dbl_def)

lemma zero_neq_one_double [simp]: "(0::double) \<noteq> 1" "(1::double) \<noteq> 0"
  using dval_inject [of 0 1] by auto

lemma dval_neg [simp]: "dval (D (- dval a)) = - dval a"
  by (rule dval_D_exact) (rule representable_neg [OF dval_representable])

lemma fsub_Fin: "fsub (Fin a) (Fin b) = dbl (dval a - dval b)"
  by (simp add: fsub_def)

lemma dbl_eq_zero: "dbl r = Fin 0 \<Longrightarrow> round_to 53 (- 1022) r = 0"
proof -
  assume a: "dbl r = Fin 0"
  then have small: "\<bar>r\<bar> < dbl_overflow" by (auto simp: dbl_def split: if_splits)
  with a have "D r = 0" by (simp add: dbl_small)
  then have "dval (D r) = 0" by simp
  then show ?thesis using small by (simp add: dval_D)
qed

lemma fsub_Fin_nonzero: "l \<noteq> u \<Longrightarrow> fsub (Fin u) (Fin l) \<noteq> Fin 0"
proof
  assume ne: "l \<noteq> u" and z: "fsub (Fin u) (Fin l) = Fin 0"
  from z have "round_to 53 (- 1022) (dval u - dval l) = 0"
    unfolding fsub_Fin by (rule dbl_eq_zero)
  moreover have "round_to 53 (- 1022) (dval u - dval l) \<noteq> 0"
    by (rule representable_diff_nonzero [OF dval_representable dval_representable])
       (use ne in \<open>simp_all add: dval_inject\<close>)
  ultimately show False by simp
qed

text \<open>Bounds that differ give a divisor that is not zero, whatever kind of float they
  are: an infinite or undefined bound gives an infinite or undefined divisor.\<close>

lemma fsub_nonzero: "py_ne lower_b upper_b \<Longrightarrow> fsub upper_b lower_b \<noteq> Fin 0"
proof (cases lower_b; cases upper_b)
  fix l u assume "py_ne lower_b upper_b" and "lower_b = Fin l" and "upper_b = Fin u"
  then show ?thesis using fsub_Fin_nonzero [of l u] by (simp add: py_ne_def)
qed (simp_all add: fsub_def)

lemma py_ne_Fin [simp]: "py_ne (Fin l) (Fin u) \<longleftrightarrow> l \<noteq> u"
  by (simp add: py_ne_def)

lemma clamp_cases:
  "\<exists>r. py_max (Fin 0) (py_min (Fin 1) q) = Fin r \<and> 0 \<le> dval r \<and> dval r \<le> 1"
  by (cases q) (auto simp: py_max_def py_min_def)

lemma normalize_pixel_value:
  assumes "py_ne lower_b upper_b"
  shows "normalize_pixel v lower_b upper_b =
     Inr (py_max (Fin 0) (py_min (Fin 1) (ieee_div (fsub v lower_b) (fsub upper_b lower_b))))"
  using fsub_nonzero [OF assms] by (simp add: normalize_pixel_def fdiv_def)

lemma normalize_pixel_range:
  assumes "py_ne lower_b upper_b"
  shows "\<exists>r. normalize_pixel v lower_b upper_b = Inr (Fin r) \<and> 0 \<le> dval r \<and> dval r \<le> 1"
  unfolding normalize_pixel_value [OF assms] using clamp_cases by simp

lemma divisor_cases:
  "fsub (Fin u) (Fin l) = PInf \<or> fsub (Fin u) (Fin l) = NInf
   \<or> (\<exists>b. fsub (Fin u) (Fin l) = Fin b)"
  by (simp add: fsub_Fin dbl_def)

lemma normalize_pixel_lower:
  assumes "l \<noteq> u"
  shows "normalize_pixel (Fin l) (Fin l) (Fin u) = Inr (Fin 0)"
proof -
  have ne: "py_ne (Fin l) (Fin u)" using assms by simp
  have num: "fsub (Fin l) (Fin l) = Fin 0" by (simp add: fsub_Fin)
  have "ieee_div (Fin 0) (fsub (Fin u) (Fin l)) = Fin 0"
    using divisor_cases [of u l] by auto
  then show ?thesis
    unfolding normalize_pixel_value [OF ne] num by (simp add: py_max_def py_min_def)
qed

lemma normalize_pixel_upper:
  assumes "dval l < dval u"
  shows "normalize_pixel (Fin u) (Fin l) (Fin u) = Inr (Fin 1)"
proof -
  have lu: "l \<noteq> u" using assms by auto
  then have ne: "py_ne (Fin l) (Fin u)" by simp
  have nz: "fsub (Fin u) (Fin l) \<noteq> Fin 0" using lu by (rule fsub_Fin_nonzero)
  have q: "ieee_div (fsub (Fin u) (Fin l)) (fsub (Fin u) (Fin l)) = Fin 1
         \<or> ieee_div (fsub (Fin u) (Fin l)) (fsub (Fin u) (Fin l)) = NaN"
  proof (cases "fsub (Fin u) (Fin l)")
    case (Fin b)
    with nz have "b \<noteq> 0" by simp
    then have "dval b \<noteq> 0" using dval_inject [of b 0] by simp
    then show ?thesis using Fin by simp
  qed simp_all
  then show ?thesis
    unfolding normalize_pixel_value [OF ne] by (auto simp: py_max_def py_min_def)
qed


lemma dval_scaled:
  assumes "\<bar>m\<bar> < 2 ^ 53" and "e \<le> 971"
  shows "dval (D (of_int m * 2 ^ e)) = of_int m * 2 ^ e"
proof (rule dval_D_exact)
  have p: "(2::real) powr of_int (int e) = 2 ^ e" by (simp add: powr_realpow)
  show "representable 53 (- 1022) 1023 (of_int m * 2 ^ e)"
    unfolding representable_def
    by (rule exI [of _ m], rule exI [of _ "int e"]) (use assms p in simp)
qed

lemma dval_half: "dval (D (1 / 2)) = 1 / 2"
proof (rule dval_D_exact)
  show "representable 53 (- 1022) 1023 (1 / 2)"
    unfolding representable_def
    by (rule exI [of _ 1], rule exI [of _ "- 1"]) (simp add: powr_minus)
qed

lemma fpow_unit:
  assumes "0 \<le> dval r" and "dval r \<le> 1"
  shows "\<exists>q. fpow (Fin r) k = Fin q \<and> 0 \<le> dval q \<and> dval q \<le> 1"
proof -
  let ?x = "dval r ^ k"
  have x0: "0 \<le> ?x" using assms(1) by simp
  have x1: "?x \<le> 1" using assms by (rule power_le_one)
  have small: "\<bar>?x\<bar> < dbl_overflow" using x0 x1 dbl_overflow_pos by simp
  have v: "dval (D ?x) = round_to 53 (- 1022) ?x" using small by (rule dval_D)
  have "0 \<le> round_to 53 (- 1022) ?x" using x0 by (rule round_to_nonneg)
  moreover have "round_to 53 (- 1022) ?x \<le> 1" by (rule round_to_le_one) (use x1 in simp_all)
  ultimately show ?thesis using small v by (simp add: dbl_small)
qed

lemma fmul_unit:
  assumes "0 \<le> dval q" and "dval q \<le> 1"
  shows "\<exists>p. fmul (Fin b) (Fin q) = Fin p"
proof -
  have "\<bar>dval b\<bar> * dval q \<le> \<bar>dval b\<bar> * 1"
    using assms by (intro mult_left_mono) auto
  then have "\<bar>dval b * dval q\<bar> \<le> \<bar>dval b\<bar>" using assms(1) by (simp add: abs_mult)
  then have "\<bar>dval b * dval q\<bar> < dbl_overflow" using dval_bound [of b] by linarith
  then show ?thesis by (simp add: dbl_small)
qed

lemma fadd_not_NaN: "a \<noteq> NaN \<Longrightarrow> fadd a (Fin b) \<noteq> NaN"
  by (cases a) auto

lemma to_float32_not_NaN: "v \<noteq> NaN \<Longrightarrow> to_float32 v \<noteq> NaN"
  by (cases v) auto

lemma convert_to_pH_not_NaN:
  assumes "0 \<le> dval r" and "dval r \<le> 1"
  shows "to_float32 (convert_to_pH (Fin r) (Fin b3) (Fin b2) (Fin b1) (Fin b0)) \<noteq> NaN"
proof -
  obtain q3 where q3: "fpow (Fin r) 3 = Fin q3" "0 \<le> dval q3" "dval q3 \<le> 1"
    using fpow_unit [OF assms] by blast
  obtain q2 where q2: "fpow (Fin r) 2 = Fin q2" "0 \<le> dval q2" "dval q2 \<le> 1"
    using fpow_unit [OF assms] by blast
  obtain p3 where p3: "fmul (Fin b3) (Fin q3) = Fin p3" using fmul_unit [OF q3(2,3)] by blast
  obtain p2 where p2: "fmul (Fin b2) (Fin q2) = Fin p2" using fmul_unit [OF q2(2,3)] by blast
  obtain p1 where p1: "fmul (Fin b1) (Fin r) = Fin p1" using fmul_unit [OF assms] by blast
  have s1: "fadd (Fin p3) (Fin p2) \<noteq> NaN" by (rule fadd_not_NaN) simp
  have s2: "fadd (fadd (Fin p3) (Fin p2)) (Fin p1) \<noteq> NaN" using s1 by (rule fadd_not_NaN)
  have s3: "fadd (fadd (fadd (Fin p3) (Fin p2)) (Fin p1)) (Fin b0) \<noteq> NaN"
    using s2 by (rule fadd_not_NaN)
  show ?thesis
    unfolding convert_to_pH_def q3(1) q2(1) p3 p2 p1 using s3 by (rule to_float32_not_NaN)
qed

lemma sample_value_ok:
  assumes "py_ne lo up"
  shows "\<exists>v. sample_value lo up B3 B2 B1 B0 s = Inr v"
  using normalize_pixel_range [OF assms, of s]
  by (auto simp: sample_value_def)

lemma sample_value_equal_bounds:
  "sample_value (Fin l) (Fin l) B3 B2 B1 B0 s =
     (if isnan s \<or> s = Fin 0 then Inr NaN else Inl ZeroDivisionError)"
  by (simp add: sample_value_def normalize_pixel_def fdiv_def fsub_Fin)

lemma out_px_sentinel:
  "isnan s \<or> s = Fin 0 \<Longrightarrow> out_px lo up B3 B2 B1 B0 s = NaN"
  by (simp add: out_px_def sample_value_def)

lemma out_px_value:
  assumes "\<not> (isnan s \<or> s = Fin 0)" and "normalize_pixel s lo up = Inr n"
  shows "out_px lo up B3 B2 B1 B0 s = to_float32 (convert_to_pH n B3 B2 B1 B0)"
  using assms by (simp add: out_px_def sample_value_def)

lemma D_distinct: "dval (D a) = a \<Longrightarrow> dval (D b) = b \<Longrightarrow> a \<noteq> b \<Longrightarrow> D a \<noteq> D b"
  by metis

lemma D_100_200: "D 100 \<noteq> D 200"
  by (rule D_distinct) (simp_all add: dval_numeral)

lemma sample_value_ok_Fin:
  assumes "l \<noteq> u"
  shows "\<exists>v. sample_value (Fin l) (Fin u) B3 B2 B1 B0 s = Inr v"
  by (rule sample_value_ok) (use assms in simp)

lemma D_numeral_nonzero:
  assumes "\<bar>numeral k :: int\<bar> < 2 ^ 53"
  shows "D (numeral k) \<noteq> 0"
proof
  assume "D (numeral k) = 0"
  then have "dval (D (numeral k)) = 0" by (simp only: dval_zero)
  moreover have "dval (D (numeral k)) = numeral k" using assms by (rule dval_numeral)
  ultimately show False by simp
qed

lemma normalize_pixel_half:
  "normalize_pixel (Fin (D 150)) (Fin (D 100)) (Fin (D 200)) = Inr (Fin (D (1 / 2)))"
proof -
  have ne: "py_ne (Fin (D 100)) (Fin (D 200))" using D_100_200 by simp
  show ?thesis
    unfolding normalize_pixel_value [OF ne]
    by (simp add: fsub_Fin dval_numeral dbl_small dbl_overflow_def py_max_def py_min_def dval_half)
qed

text \<open>
  Claim C2, as amended. For every value \<open>v\<close> and all bounds with \<open>lower != upper\<close>
  (not-a-number and the infinities included), \<open>normalize_pixel\<close> raises nothing and
  returns the double quotient of the two double differences, each operation rounded,
  clamped by \<open>max(0.0, min(1.0, .))\<close>; the result is a finite double of the interval
  from 0 to 1; for finite bounds it is 0 at \<open>v = lower\<close>, and 1 at \<open>v = upper\<close> when
  \<open>lower < upper\<close>.
\<close>

theorem normalize_pixel_clamped:
  assumes "py_ne lo up"
  shows "normalize_pixel v lo up =
           Inr (py_max (Fin 0) (py_min (Fin 1) (ieee_div (fsub v lo) (fsub up lo))))
       \<and> (\<exists>r. normalize_pixel v lo up = Inr (Fin r) \<and> 0 \<le> dval r \<and> dval r \<le> 1)
       \<and> (\<forall>l u. lo = Fin l \<and> up = Fin u \<longrightarrow>
              normalize_pixel lo lo up = Inr (Fin 0)
            \<and> (dval l < dval u \<longrightarrow> normalize_pixel up lo up = Inr (Fin 1)))"
proof (intro conjI allI impI)
  show "normalize_pixel v lo up =
           Inr (py_max (Fin 0) (py_min (Fin 1) (ieee_div (fsub v lo) (fsub up lo))))"
    using assms by (rule normalize_pixel_value)
  show "\<exists>r. normalize_pixel v lo up = Inr (Fin r) \<and> 0 \<le> dval r \<and> dval r \<le> 1"
    using assms by (rule normalize_pixel_range)
next
  fix l u assume b: "lo = Fin l \<and> up = Fin u"
  then have "l \<noteq> u" using assms by simp
  then show "normalize_pixel lo lo up = Inr (Fin 0)"
    using b normalize_pixel_lower [of l u] by simp
next
  fix l u assume b: "lo = Fin l \<and> up = Fin u" and "dval l < dval u"
  then show "normalize_pixel up lo up = Inr (Fin 1)"
    using normalize_pixel_upper [of l u] by simp
qed

theorem normalize_pixel_clamped_witness:
  "py_ne (Fin (D 100)) (Fin (D 200))
   \<and> dval (D 100) < dval (D 200)
   \<and> normalize_pixel (Fin (D 150)) (Fin (D 100)) (Fin (D 200)) = Inr (Fin (D (1 / 2)))
   \<and> dval (D (1 / 2)) = 1 / 2
   \<and> normalize_pixel (Fin (D 100)) (Fin (D 100)) (Fin (D 200)) = Inr (Fin 0)
   \<and> normalize_pixel (Fin (D 200)) (Fin (D 100)) (Fin (D 200)) = Inr (Fin 1)"
proof -
  have ne: "py_ne (Fin (D 100)) (Fin (D 200))" using D_100_200 by simp
  have lt: "dval (D 100) < dval (D 200)" by (simp add: dval_numeral)
  from normalize_pixel_clamped [OF ne, of "Fin (D 150)"] lt
  have "normalize_pixel (Fin (D 100)) (Fin (D 100)) (Fin (D 200)) = Inr (Fin 0)
      \<and> normalize_pixel (Fin (D 200)) (Fin (D 100)) (Fin (D 200)) = Inr (Fin 1)"
    by blast
  then show ?thesis using ne lt normalize_pixel_half dval_half by simp
qed

text \<open>
  Claim C2 as stated fails. The result is not always the real quotient
  \<open>(v - l) / (u - l)\<close> clamped: for \<open>v = 2 ^ 1023\<close>, \<open>l = - 2 ^ 1023\<close> and
  \<open>u = 3 * 2 ^ 1022\<close>, three doubles, both differences overflow and the result is 1,
  while the clamped quotient is \<open>4 / 5\<close>. And with a lower bound that is not-a-number,
  which differs from every upper bound, the result at \<open>v = l\<close> is 1, not 0.
\<close>

theorem normalize_pixel_not_the_quotient:
  "normalize_pixel (Fin (D (2 ^ 1023))) (Fin (D (- (2 ^ 1023)))) (Fin (D (3 * 2 ^ 1022)))
     = Inr (Fin 1)
   \<and> py_ne (Fin (D (- (2 ^ 1023)))) (Fin (D (3 * 2 ^ 1022)))
   \<and> dval (D (2 ^ 1023)) = 2 ^ 1023
   \<and> dval (D (- (2 ^ 1023))) = - (2 ^ 1023)
   \<and> dval (D (3 * 2 ^ 1022)) = 3 * 2 ^ 1022
   \<and> normalize_spec (2 ^ 1023) (- (2 ^ 1023)) (3 * 2 ^ 1022) = 4 / 5
   \<and> dval 1 \<noteq> 4 / 5
   \<and> py_ne NaN (Fin 1)
   \<and> normalize_pixel NaN NaN (Fin 1) = Inr (Fin 1)
   \<and> Fin 1 \<noteq> Fin 0"
proof -
  have v: "dval (D (2 ^ 1023)) = 2 ^ 1023"
    using dval_scaled [of "2 ^ 52" 971] by simp
  have l: "dval (D (- (2 ^ 1023))) = - (2 ^ 1023)"
    using dval_scaled [of "- (2 ^ 52)" 971] by simp
  have u: "dval (D (3 * 2 ^ 1022)) = 3 * 2 ^ 1022"
    using dval_scaled [of "3 * 2 ^ 51" 971] by simp
  have ne: "py_ne (Fin (D (- (2 ^ 1023)))) (Fin (D (3 * 2 ^ 1022)))"
    unfolding py_ne_Fin by (rule D_distinct [OF l u]) simp
  have a: "fsub (Fin (D (2 ^ 1023))) (Fin (D (- (2 ^ 1023)))) = PInf"
    unfolding fsub_Fin v l by (simp add: dbl_def dbl_overflow_def)
  have b: "fsub (Fin (D (3 * 2 ^ 1022))) (Fin (D (- (2 ^ 1023)))) = PInf"
    unfolding fsub_Fin u l by (simp add: dbl_def dbl_overflow_def)
  have r1: "normalize_pixel (Fin (D (2 ^ 1023))) (Fin (D (- (2 ^ 1023)))) (Fin (D (3 * 2 ^ 1022)))
     = Inr (Fin 1)"
    unfolding normalize_pixel_value [OF ne] a b by (simp add: py_max_def py_min_def)
  have s: "normalize_spec (2 ^ 1023) (- (2 ^ 1023)) (3 * 2 ^ 1022) = 4 / 5"
    by (simp add: normalize_spec_def)
  have n: "py_ne NaN (Fin 1)" by (simp add: py_ne_def)
  have r2: "normalize_pixel NaN NaN (Fin 1) = Inr (Fin 1)"
    unfolding normalize_pixel_value [OF n] by (simp add: fsub_def py_max_def py_min_def)
  show ?thesis using r1 ne v l u s n r2 by simp
qed

section \<open>The loops of the image transformation\<close>

lemma index_in_range: "x < w \<Longrightarrow> y < hgt \<Longrightarrow> y * w + x < w * (hgt::nat)"
proof -
  assume a: "x < w" and b: "y < hgt"
  have "y * w + x < y * w + w" using a by simp
  also have "\<dots> = Suc y * w" by simp
  also have "\<dots> \<le> hgt * w" using b by (intro mult_le_mono1) simp
  finally show ?thesis by (simp add: mult.commute)
qed

lemma pixel_step_ok:
  assumes "bufs_ok h ip pH src w hgt" and "x < w" and "y < hgt"
    and "sample_value lo up B3 B2 B1 B0 (ip_pixels src ! (y * w + x)) = Inr v"
  shows "pixel_step ip pH lo up B3 B2 B1 B0 y x h =
           Inr (h[pH := (h ! pH)\<lparr>ip_pixels := (ip_pixels (h ! pH))[y * w + x := to_float32 v]\<rparr>])"
  using assms index_in_range [of x w y hgt]
  by (auto simp: bufs_ok_def pixel_step_def getf_def setf_def sample_value_def Let_def
      split: sum.splits if_splits)

lemma pixel_step_err:
  assumes "bufs_ok h ip pH src w hgt" and "x < w" and "y < hgt"
    and "sample_value lo up B3 B2 B1 B0 (ip_pixels src ! (y * w + x)) = Inl e"
  shows "pixel_step ip pH lo up B3 B2 B1 B0 y x h = Inl e"
  using assms index_in_range [of x w y hgt]
  by (auto simp: bufs_ok_def pixel_step_def getf_def setf_def sample_value_def Let_def
      split: sum.splits if_splits)

lemma bufs_ok_update:
  assumes "bufs_ok h ip pH src w hgt"
  shows "bufs_ok (h[pH := (h ! pH)\<lparr>ip_pixels := (ip_pixels (h ! pH))[i := v]\<rparr>]) ip pH src w hgt"
  using assms by (auto simp: bufs_ok_def)

lemma loop_x_ok:
  assumes "bufs_ok h ip pH src w hgt" and "y < hgt" and "\<forall>x\<in>set xs. x < w"
    and "\<forall>i < w * hgt. \<exists>v. sample_value lo up B3 B2 B1 B0 (ip_pixels src ! i) = Inr v"
  shows "\<exists>h'. loop_x ip pH lo up B3 B2 B1 B0 y xs h = Inr h'
           \<and> bufs_ok h' ip pH src w hgt \<and> length h' = length h
           \<and> (\<forall>r. r \<noteq> pH \<longrightarrow> h' ! r = h ! r)
           \<and> (\<forall>i < w * hgt. ip_pixels (h' ! pH) ! i =
                 (if \<exists>x\<in>set xs. i = y * w + x
                  then out_px lo up B3 B2 B1 B0 (ip_pixels src ! i)
                  else ip_pixels (h ! pH) ! i))"
  using assms(1,3)
proof (induction xs arbitrary: h)
  case Nil
  then show ?case by simp
next
  case (Cons x xs)
  let ?i = "y * w + x"
  from Cons.prems have xw: "x < w" by simp
  then have ir: "?i < w * hgt" using assms(2) by (rule index_in_range)
  with assms(4) obtain v where v: "sample_value lo up B3 B2 B1 B0 (ip_pixels src ! ?i) = Inr v"
    by blast
  define h1 where "h1 = h[pH := (h ! pH)\<lparr>ip_pixels := (ip_pixels (h ! pH))[?i := to_float32 v]\<rparr>]"
  have step: "pixel_step ip pH lo up B3 B2 B1 B0 y x h = Inr h1"
    unfolding h1_def using Cons.prems(1) xw assms(2) v by (rule pixel_step_ok)
  have ok1: "bufs_ok h1 ip pH src w hgt"
    unfolding h1_def using Cons.prems(1) by (rule bufs_ok_update)
  from Cons.IH [OF ok1] Cons.prems(2)
  obtain h' where h': "loop_x ip pH lo up B3 B2 B1 B0 y xs h1 = Inr h'"
    and ok': "bufs_ok h' ip pH src w hgt" and len: "length h' = length h1"
    and frame: "\<forall>r. r \<noteq> pH \<longrightarrow> h' ! r = h1 ! r"
    and px: "\<forall>i < w * hgt. ip_pixels (h' ! pH) ! i =
                 (if \<exists>x\<in>set xs. i = y * w + x
                  then out_px lo up B3 B2 B1 B0 (ip_pixels src ! i)
                  else ip_pixels (h1 ! pH) ! i)"
    by auto
  have pHlen: "pH < length h" and plen: "length (ip_pixels (h ! pH)) = w * hgt"
    using Cons.prems(1) by (auto simp: bufs_ok_def)
  have h1px: "ip_pixels (h1 ! pH) ! i =
      (if i = ?i then out_px lo up B3 B2 B1 B0 (ip_pixels src ! i) else ip_pixels (h ! pH) ! i)"
    if "i < w * hgt" for i
    using that pHlen plen v by (simp add: h1_def out_px_def nth_list_update)
  have "loop_x ip pH lo up B3 B2 B1 B0 y (x # xs) h = Inr h'"
    using step h' by simp
  moreover have "length h' = length h" using len by (simp add: h1_def)
  moreover have "\<forall>r. r \<noteq> pH \<longrightarrow> h' ! r = h ! r"
    using frame by (simp add: h1_def)
  moreover have "\<forall>i < w * hgt. ip_pixels (h' ! pH) ! i =
                 (if \<exists>x'\<in>set (x # xs). i = y * w + x'
                  then out_px lo up B3 B2 B1 B0 (ip_pixels src ! i)
                  else ip_pixels (h ! pH) ! i)"
    using px h1px by auto
  ultimately show ?case using ok' by blast
qed

lemma loop_x_err:
  assumes "bufs_ok h ip pH src w hgt" and "y < hgt" and "\<forall>x\<in>set xs. x < w"
    and "\<forall>i < w * hgt. sample_value lo up B3 B2 B1 B0 (ip_pixels src ! i) = Inl e
           \<or> (\<exists>v. sample_value lo up B3 B2 B1 B0 (ip_pixels src ! i) = Inr v)"
    and "\<exists>x\<in>set xs. sample_value lo up B3 B2 B1 B0 (ip_pixels src ! (y * w + x)) = Inl e"
  shows "loop_x ip pH lo up B3 B2 B1 B0 y xs h = Inl e"
  using assms(1,3,5)
proof (induction xs arbitrary: h)
  case Nil
  then show ?case by simp
next
  case (Cons x xs)
  let ?i = "y * w + x"
  from Cons.prems have xw: "x < w" by simp
  then have ir: "?i < w * hgt" using assms(2) by (rule index_in_range)
  show ?case
  proof (cases "sample_value lo up B3 B2 B1 B0 (ip_pixels src ! ?i)")
    case (Inl e')
    with assms(4) ir have "e' = e" by force
    with Inl pixel_step_err [OF Cons.prems(1) xw assms(2)] show ?thesis by simp
  next
    case (Inr v)
    define h1 where "h1 = h[pH := (h ! pH)\<lparr>ip_pixels := (ip_pixels (h ! pH))[?i := to_float32 v]\<rparr>]"
    have step: "pixel_step ip pH lo up B3 B2 B1 B0 y x h = Inr h1"
      unfolding h1_def using Cons.prems(1) xw assms(2) Inr by (rule pixel_step_ok)
    have ok1: "bufs_ok h1 ip pH src w hgt"
      unfolding h1_def using Cons.prems(1) by (rule bufs_ok_update)
    from Cons.prems(3) Inr
    have "\<exists>x\<in>set xs. sample_value lo up B3 B2 B1 B0 (ip_pixels src ! (y * w + x)) = Inl e"
      by auto
    from Cons.IH [OF ok1 _ this] Cons.prems(2) step show ?thesis by simp
  qed
qed

lemma loop_y_ok:
  assumes "bufs_ok h ip pH src w hgt" and "\<forall>y\<in>set ys. y < hgt"
    and "\<forall>i < w * hgt. \<exists>v. sample_value lo up B3 B2 B1 B0 (ip_pixels src ! i) = Inr v"
  shows "\<exists>h'. loop_y ip pH lo up B3 B2 B1 B0 w ys h = Inr h'
           \<and> bufs_ok h' ip pH src w hgt \<and> length h' = length h
           \<and> (\<forall>r. r \<noteq> pH \<longrightarrow> h' ! r = h ! r)
           \<and> (\<forall>i < w * hgt. ip_pixels (h' ! pH) ! i =
                 (if \<exists>y\<in>set ys. \<exists>x<w. i = y * w + x
                  then out_px lo up B3 B2 B1 B0 (ip_pixels src ! i)
                  else ip_pixels (h ! pH) ! i))"
  using assms(1,2)
proof (induction ys arbitrary: h)
  case Nil
  then show ?case by simp
next
  case (Cons y ys)
  from Cons.prems have yh: "y < hgt" by simp
  have xs: "\<forall>x\<in>set [0..<w]. x < w" by simp
  from loop_x_ok [OF Cons.prems(1) yh xs assms(3)]
  obtain h1 where h1: "loop_x ip pH lo up B3 B2 B1 B0 y [0..<w] h = Inr h1"
    and ok1: "bufs_ok h1 ip pH src w hgt" and len1: "length h1 = length h"
    and frame1: "\<forall>r. r \<noteq> pH \<longrightarrow> h1 ! r = h ! r"
    and px1: "\<forall>i < w * hgt. ip_pixels (h1 ! pH) ! i =
                 (if \<exists>x\<in>set [0..<w]. i = y * w + x
                  then out_px lo up B3 B2 B1 B0 (ip_pixels src ! i)
                  else ip_pixels (h ! pH) ! i)"
    by blast
  from Cons.IH [OF ok1] Cons.prems(2)
  obtain h' where h': "loop_y ip pH lo up B3 B2 B1 B0 w ys h1 = Inr h'"
    and ok': "bufs_ok h' ip pH src w hgt" and len: "length h' = length h1"
    and frame: "\<forall>r. r \<noteq> pH \<longrightarrow> h' ! r = h1 ! r"
    and px: "\<forall>i < w * hgt. ip_pixels (h' ! pH) ! i =
                 (if \<exists>y\<in>set ys. \<exists>x<w. i = y * w + x
                  then out_px lo up B3 B2 B1 B0 (ip_pixels src ! i)
                  else ip_pixels (h1 ! pH) ! i)"
    by auto
  have "loop_y ip pH lo up B3 B2 B1 B0 w (y # ys) h = Inr h'"
    using h1 h' by simp
  moreover have "length h' = length h" using len len1 by simp
  moreover have "\<forall>r. r \<noteq> pH \<longrightarrow> h' ! r = h ! r"
    using frame frame1 by simp
  moreover have "\<forall>i < w * hgt. ip_pixels (h' ! pH) ! i =
                 (if \<exists>y'\<in>set (y # ys). \<exists>x<w. i = y' * w + x
                  then out_px lo up B3 B2 B1 B0 (ip_pixels src ! i)
                  else ip_pixels (h ! pH) ! i)"
    using px px1 by auto
  ultimately show ?case using ok' by blast
qed

lemma loop_y_err:
  assumes "bufs_ok h ip pH src w hgt" and "\<forall>y\<in>set ys. y < hgt"
    and "\<forall>i < w * hgt. sample_value lo up B3 B2 B1 B0 (ip_pixels src ! i) = Inl e
           \<or> (\<exists>v. sample_value lo up B3 B2 B1 B0 (ip_pixels src ! i) = Inr v)"
    and "\<exists>y\<in>set ys. \<exists>x<w. sample_value lo up B3 B2 B1 B0 (ip_pixels src ! (y * w + x)) = Inl e"
  shows "loop_y ip pH lo up B3 B2 B1 B0 w ys h = Inl e"
  using assms(1,2,4)
proof (induction ys arbitrary: h)
  case Nil
  then show ?case by simp
next
  case (Cons y ys)
  from Cons.prems have yh: "y < hgt" by simp
  have xs: "\<forall>x\<in>set [0..<w]. x < w" by simp
  show ?case
  proof (cases "\<exists>x<w. sample_value lo up B3 B2 B1 B0 (ip_pixels src ! (y * w + x)) = Inl e")
    case True
    then have "\<exists>x\<in>set [0..<w]. sample_value lo up B3 B2 B1 B0 (ip_pixels src ! (y * w + x)) = Inl e"
      by auto
    from loop_x_err [OF Cons.prems(1) yh xs assms(3) this] show ?thesis by simp
  next
    case False
    have row: "\<exists>v. sample_value lo up B3 B2 B1 B0 (ip_pixels src ! (y * w + x)) = Inr v"
      if "x < w" for x
      using that False assms(3) index_in_range [OF that yh] by blast
    have "\<exists>h1. loop_x ip pH lo up B3 B2 B1 B0 y xs h = Inr h1 \<and> bufs_ok h1 ip pH src w hgt"
      if "\<forall>x\<in>set xs. x < w" for xs
      using Cons.prems(1) that
    proof (induction xs arbitrary: h)
      case Nil
      then show ?case by simp
    next
      case (Cons x xs)
      then have xw: "x < w" by simp
      from row [OF xw] obtain v
        where v: "sample_value lo up B3 B2 B1 B0 (ip_pixels src ! (y * w + x)) = Inr v" ..
      from pixel_step_ok [OF Cons.prems(1) xw yh v] bufs_ok_update [OF Cons.prems(1)]
        Cons.IH Cons.prems(2)
      show ?case by simp
    qed
    from this [OF xs] obtain h1
      where h1: "loop_x ip pH lo up B3 B2 B1 B0 y [0..<w] h = Inr h1"
        and ok1: "bufs_ok h1 ip pH src w hgt" by blast
    from Cons.prems(3) False
    have "\<exists>y\<in>set ys. \<exists>x<w. sample_value lo up B3 B2 B1 B0 (ip_pixels src ! (y * w + x)) = Inl e"
      by auto
    from Cons.IH [OF ok1 _ this] Cons.prems(2) h1 show ?thesis by simp
  qed
qed

lemma process_image_start:
  assumes "processor img < length h"
    and "length (ip_pixels (h ! processor img)) = ip_width (h ! processor img) * ip_height (h ! processor img)"
  shows "bufs_ok (h @ [(h ! processor img)\<lparr>bitDepth := 32\<rparr>,
                       FloatProcessor (ip_width (h ! processor img)) (ip_height (h ! processor img))])
           (length h) (Suc (length h)) ((h ! processor img)\<lparr>bitDepth := 32\<rparr>)
           (ip_width (h ! processor img)) (ip_height (h ! processor img))"
  using assms by (simp add: bufs_ok_def nth_append FloatProcessor_def)

lemma process_image_unfold:
  "process_image h img lo up B3 B2 B1 B0 =
     (case loop_y (length h) (Suc (length h)) lo up B3 B2 B1 B0 (ip_width (h ! processor img))
             [0..<ip_height (h ! processor img)]
             (h @ [(h ! processor img)\<lparr>bitDepth := 32\<rparr>,
                   FloatProcessor (ip_width (h ! processor img)) (ip_height (h ! processor img))]) of
        Inl e \<Rightarrow> Inl e
      | Inr h3 \<Rightarrow> Inr (h3, \<lparr>title = ''pH_'' @ title img, processor = Suc (length h)\<rparr>))"
  by (simp add: process_image_def alloc_def duplicate_def convertToFloat_def Let_def nth_append
      split: sum.splits)

lemma process_image_ok:
  assumes "processor img < length h"
    and "length (ip_pixels (h ! processor img)) = ip_width (h ! processor img) * ip_height (h ! processor img)"
    and "\<forall>i < length (ip_pixels (h ! processor img)).
           \<exists>v. sample_value lo up B3 B2 B1 B0 (ip_pixels (h ! processor img) ! i) = Inr v"
  shows "\<exists>h' out. process_image h img lo up B3 B2 B1 B0 = Inr (h', out)
          \<and> title out = ''pH_'' @ title img
          \<and> processor out = Suc (length h)
          \<and> length h' = length h + 2
          \<and> (\<forall>r < length h. h' ! r = h ! r)
          \<and> ip_width (h' ! processor out) = ip_width (h ! processor img)
          \<and> ip_height (h' ! processor out) = ip_height (h ! processor img)
          \<and> length (ip_pixels (h' ! processor out)) = length (ip_pixels (h ! processor img))
          \<and> (\<forall>x < ip_width (h ! processor img). \<forall>y < ip_height (h ! processor img).
                ip_pixels (h' ! processor out) ! (y * ip_width (h ! processor img) + x) =
                out_px lo up B3 B2 B1 B0
                  (ip_pixels (h ! processor img) ! (y * ip_width (h ! processor img) + x)))"
proof -
  let ?src = "h ! processor img"
  let ?w = "ip_width ?src" and ?hgt = "ip_height ?src"
  let ?h2 = "h @ [?src\<lparr>bitDepth := 32\<rparr>, FloatProcessor ?w ?hgt]"
  have ok: "bufs_ok ?h2 (length h) (Suc (length h)) (?src\<lparr>bitDepth := 32\<rparr>) ?w ?hgt"
    using assms(1,2) by (rule process_image_start)
  have ys: "\<forall>y\<in>set [0..<?hgt]. y < ?hgt" by simp
  have all: "\<forall>i < ?w * ?hgt. \<exists>v. sample_value lo up B3 B2 B1 B0
                 (ip_pixels (?src\<lparr>bitDepth := 32\<rparr>) ! i) = Inr v"
    using assms(2,3) by simp
  from loop_y_ok [OF ok ys all]
  obtain h' where run: "loop_y (length h) (Suc (length h)) lo up B3 B2 B1 B0 ?w [0..<?hgt] ?h2 = Inr h'"
    and ok': "bufs_ok h' (length h) (Suc (length h)) (?src\<lparr>bitDepth := 32\<rparr>) ?w ?hgt"
    and len: "length h' = length ?h2"
    and frame: "\<forall>r. r \<noteq> Suc (length h) \<longrightarrow> h' ! r = ?h2 ! r"
    and px: "\<forall>i < ?w * ?hgt. ip_pixels (h' ! Suc (length h)) ! i =
                 (if \<exists>y\<in>set [0..<?hgt]. \<exists>x<?w. i = y * ?w + x
                  then out_px lo up B3 B2 B1 B0 (ip_pixels (?src\<lparr>bitDepth := 32\<rparr>) ! i)
                  else ip_pixels (?h2 ! Suc (length h)) ! i)"
    by blast
  let ?out = "\<lparr>title = ''pH_'' @ title img, processor = Suc (length h)\<rparr>"
  have "process_image h img lo up B3 B2 B1 B0 = Inr (h', ?out)"
    using run by (simp add: process_image_unfold)
  moreover have "\<forall>r < length h. h' ! r = h ! r"
    using frame by (simp add: nth_append)
  moreover have "ip_width (h' ! Suc (length h)) = ?w" "ip_height (h' ! Suc (length h)) = ?hgt"
    "length (ip_pixels (h' ! Suc (length h))) = length (ip_pixels ?src)"
    using ok' assms(2) by (auto simp: bufs_ok_def)
  moreover have "ip_pixels (h' ! Suc (length h)) ! (y * ?w + x) =
                out_px lo up B3 B2 B1 B0 (ip_pixels ?src ! (y * ?w + x))"
    if "x < ?w" and "y < ?hgt" for x y
  proof -
    have "y * ?w + x < ?w * ?hgt" using that by (rule index_in_range)
    moreover have "\<exists>y'\<in>set [0..<?hgt]. \<exists>x'<?w. y * ?w + x = y' * ?w + x'"
      using that by auto
    ultimately show ?thesis using px by simp
  qed
  ultimately show ?thesis using len by simp
qed

lemma process_image_err:
  assumes "processor img < length h"
    and "length (ip_pixels (h ! processor img)) = ip_width (h ! processor img) * ip_height (h ! processor img)"
    and "\<forall>i < length (ip_pixels (h ! processor img)).
           sample_value lo up B3 B2 B1 B0 (ip_pixels (h ! processor img) ! i) = Inl e
           \<or> (\<exists>v. sample_value lo up B3 B2 B1 B0 (ip_pixels (h ! processor img) ! i) = Inr v)"
    and "x < ip_width (h ! processor img)" and "y < ip_height (h ! processor img)"
    and "sample_value lo up B3 B2 B1 B0
           (ip_pixels (h ! processor img) ! (y * ip_width (h ! processor img) + x)) = Inl e"
  shows "process_image h img lo up B3 B2 B1 B0 = Inl e"
proof -
  let ?src = "h ! processor img"
  let ?w = "ip_width ?src" and ?hgt = "ip_height ?src"
  let ?h2 = "h @ [?src\<lparr>bitDepth := 32\<rparr>, FloatProcessor ?w ?hgt]"
  have ok: "bufs_ok ?h2 (length h) (Suc (length h)) (?src\<lparr>bitDepth := 32\<rparr>) ?w ?hgt"
    using assms(1,2) by (rule process_image_start)
  have ys: "\<forall>y\<in>set [0..<?hgt]. y < ?hgt" by simp
  have all: "\<forall>i < ?w * ?hgt.
      sample_value lo up B3 B2 B1 B0 (ip_pixels (?src\<lparr>bitDepth := 32\<rparr>) ! i) = Inl e
      \<or> (\<exists>v. sample_value lo up B3 B2 B1 B0 (ip_pixels (?src\<lparr>bitDepth := 32\<rparr>) ! i) = Inr v)"
    using assms(2,3) by simp
  have ex: "\<exists>y\<in>set [0..<?hgt]. \<exists>x<?w.
      sample_value lo up B3 B2 B1 B0 (ip_pixels (?src\<lparr>bitDepth := 32\<rparr>) ! (y * ?w + x)) = Inl e"
    using assms(4,5,6) by auto
  from loop_y_err [OF ok ys all ex] show ?thesis
    by (simp add: process_image_unfold)
qed

section \<open>The image transformation\<close>

text \<open>
  Claim C1, as amended. For a well-formed input image, any bounds with
  \<open>lower != upper\<close> and finite coefficients, \<open>process_image\<close> raises nothing and returns
  a new image titled \<open>pH_\<close> and the input's title, in a new buffer of the input's width
  and height; no processor that existed before is changed; a sample that is
  not-a-number or zero becomes not-a-number; every other sample becomes
  \<open>convert_to_pH (normalize_pixel sample lower upper)\<close> narrowed to a 32-bit float,
  which is never not-a-number.
\<close>

theorem process_image_transform:
  assumes "processor img < length h"
    and "length (ip_pixels (h ! processor img)) =
           ip_width (h ! processor img) * ip_height (h ! processor img)"
    and "py_ne lo up"
  shows "\<exists>h' out.
      process_image h img lo up (Fin b3) (Fin b2) (Fin b1) (Fin b0) = Inr (h', out)
    \<and> title out = ''pH_'' @ title img
    \<and> length h \<le> processor out
    \<and> (\<forall>r < length h. h' ! r = h ! r)
    \<and> ip_width (h' ! processor out) = ip_width (h ! processor img)
    \<and> ip_height (h' ! processor out) = ip_height (h ! processor img)
    \<and> (\<forall>x < ip_width (h ! processor img). \<forall>y < ip_height (h ! processor img).
          (let s = ip_pixels (h ! processor img) ! (y * ip_width (h ! processor img) + x);
               t = ip_pixels (h' ! processor out) ! (y * ip_width (h ! processor img) + x)
           in if isnan s \<or> s = Fin 0 then t = NaN
              else \<exists>n. normalize_pixel s lo up = Inr n
                     \<and> t = to_float32 (convert_to_pH n (Fin b3) (Fin b2) (Fin b1) (Fin b0))
                     \<and> t \<noteq> NaN))"
proof -
  let ?src = "h ! processor img"
  let ?w = "ip_width ?src" and ?hgt = "ip_height ?src"
  have all: "\<forall>i < length (ip_pixels ?src).
      \<exists>v. sample_value lo up (Fin b3) (Fin b2) (Fin b1) (Fin b0) (ip_pixels ?src ! i) = Inr v"
    using sample_value_ok [OF assms(3)] by blast
  from process_image_ok [OF assms(1,2) all]
  obtain h' out where run:
      "process_image h img lo up (Fin b3) (Fin b2) (Fin b1) (Fin b0) = Inr (h', out)"
    and t: "title out = ''pH_'' @ title img"
    and p: "processor out = Suc (length h)"
    and frame: "\<forall>r < length h. h' ! r = h ! r"
    and dims: "ip_width (h' ! processor out) = ?w" "ip_height (h' ! processor out) = ?hgt"
    and px: "\<forall>x < ?w. \<forall>y < ?hgt. ip_pixels (h' ! processor out) ! (y * ?w + x) =
                out_px lo up (Fin b3) (Fin b2) (Fin b1) (Fin b0)
                  (ip_pixels ?src ! (y * ?w + x))"
    by blast
  have each: "let s = ip_pixels ?src ! (y * ?w + x);
               t = ip_pixels (h' ! processor out) ! (y * ?w + x)
           in if isnan s \<or> s = Fin 0 then t = NaN
              else \<exists>n. normalize_pixel s lo up = Inr n
                     \<and> t = to_float32 (convert_to_pH n (Fin b3) (Fin b2) (Fin b1) (Fin b0))
                     \<and> t \<noteq> NaN"
    if "x < ?w" and "y < ?hgt" for x y
  proof -
    let ?s = "ip_pixels ?src ! (y * ?w + x)"
    let ?t = "ip_pixels (h' ! processor out) ! (y * ?w + x)"
    have teq: "?t = out_px lo up (Fin b3) (Fin b2) (Fin b1) (Fin b0) ?s"
      using px that by blast
    show ?thesis
    proof (cases "isnan ?s \<or> ?s = Fin 0")
      case True
      then show ?thesis using teq by (simp add: out_px_sentinel)
    next
      case False
      from normalize_pixel_range [OF assms(3), of ?s]
      obtain r where n: "normalize_pixel ?s lo up = Inr (Fin r)"
        and r: "0 \<le> dval r" "dval r \<le> 1" by blast
      let ?v = "to_float32 (convert_to_pH (Fin r) (Fin b3) (Fin b2) (Fin b1) (Fin b0))"
      have v: "?t = ?v" using teq out_px_value [OF False n] by simp
      have nn: "?v \<noteq> NaN" using r by (rule convert_to_pH_not_NaN)
      show ?thesis using False n v nn by (simp add: Let_def)
    qed
  qed
  have "length h \<le> processor out" using p by simp
  with run t frame dims each show ?thesis by blast
qed

theorem process_image_transform_witness:
  "processor \<lparr>title = ''a.tif'', processor = 0\<rparr> < length [demo_image]
   \<and> length (ip_pixels ([demo_image] ! 0)) = ip_width ([demo_image] ! 0) * ip_height ([demo_image] ! 0)
   \<and> py_ne (Fin (D 100)) (Fin (D 200))
   \<and> (\<exists>h' out.
          process_image [demo_image] \<lparr>title = ''a.tif'', processor = 0\<rparr>
            (Fin (D 100)) (Fin (D 200)) (Fin 0) (Fin 0) (Fin 1) (Fin 0) = Inr (h', out)
        \<and> title out = ''pH_a.tif''
        \<and> h' ! 0 = demo_image
        \<and> ip_width (h' ! processor out) = 3 \<and> ip_height (h' ! processor out) = 1
        \<and> ip_pixels (h' ! processor out) ! 1 = NaN
        \<and> ip_pixels (h' ! processor out) ! 0 \<noteq> NaN)"
proof -
  let ?img = "\<lparr>title = ''a.tif'', processor = 0\<rparr>"
  have h1: "processor ?img < length [demo_image]" by simp
  have h2: "length (ip_pixels ([demo_image] ! processor ?img)) =
      ip_width ([demo_image] ! processor ?img) * ip_height ([demo_image] ! processor ?img)"
    by (simp add: demo_image_def)
  have h3: "py_ne (Fin (D 100)) (Fin (D 200))" using D_100_200 by simp
  have "dval (D 150) \<noteq> dval 0" by (simp add: dval_numeral)
  then have s0: "Fin (D 150) \<noteq> Fin 0" by auto
  from process_image_transform [OF h1 h2 h3, of 0 0 1 0]
  obtain h' out where run:
    "process_image [demo_image] ?img (Fin (D 100)) (Fin (D 200)) (Fin 0) (Fin 0) (Fin 1) (Fin 0) = Inr (h', out)"
    "title out = ''pH_'' @ title ?img"
    "\<forall>r < length [demo_image]. h' ! r = [demo_image] ! r"
    "ip_width (h' ! processor out) = ip_width ([demo_image] ! processor ?img)"
    "ip_height (h' ! processor out) = ip_height ([demo_image] ! processor ?img)"
    and px: "\<forall>x < ip_width ([demo_image] ! processor ?img).
         \<forall>y < ip_height ([demo_image] ! processor ?img).
          (let s = ip_pixels ([demo_image] ! processor ?img) !
                     (y * ip_width ([demo_image] ! processor ?img) + x);
               t = ip_pixels (h' ! processor out) !
                     (y * ip_width ([demo_image] ! processor ?img) + x)
           in if isnan s \<or> s = Fin 0 then t = NaN
              else \<exists>n. normalize_pixel s (Fin (D 100)) (Fin (D 200)) = Inr n
                     \<and> t = to_float32 (convert_to_pH n (Fin 0) (Fin 0) (Fin 1) (Fin 0))
                     \<and> t \<noteq> NaN)"
    by blast
  have p1: "ip_pixels (h' ! processor out) ! 1 = NaN"
    using px [rule_format, of 1 0] by (simp add: demo_image_def)
  have p0: "ip_pixels (h' ! processor out) ! 0 \<noteq> NaN"
    using px [rule_format, of 0 0] s0 by (auto simp: demo_image_def Let_def)
  from run have "process_image [demo_image] ?img (Fin (D 100)) (Fin (D 200)) (Fin 0) (Fin 0) (Fin 1) (Fin 0) = Inr (h', out)
        \<and> title out = ''pH_a.tif''
        \<and> h' ! 0 = demo_image
        \<and> ip_width (h' ! processor out) = 3 \<and> ip_height (h' ! processor out) = 1"
    by (simp add: demo_image_def)
  then show ?thesis using h2 h3 p1 p0 by auto
qed

text \<open>
  Claim C1 as stated fails: with bounds 0 and 1 and the finite coefficients
  \<open>B3 = B2 = B1 = 0\<close> and \<open>B0 = 2 ^ 128\<close>, the sample 1 is mapped to an infinite
  output sample.
\<close>

theorem process_image_infinite_sample:
  "process_image [unit_image] \<lparr>title = ''a.tif'', processor = 0\<rparr>
     (Fin 0) (Fin 1) (Fin 0) (Fin 0) (Fin 0) (Fin (D (2 ^ 128)))
   = Inr ([unit_image, unit_image,
           \<lparr>bitDepth = 32, ip_width = 1, ip_height = 1, ip_pixels = [PInf]\<rparr>],
          \<lparr>title = ''pH_a.tif'', processor = 2\<rparr>)
   \<and> py_ne (Fin 0) (Fin 1) \<and> dval (D (2 ^ 128)) = 2 ^ 128
   \<and> \<not> isfinite PInf \<and> \<not> isnan (Fin 1) \<and> Fin 1 \<noteq> Fin 0"
proof -
  define B where "B = D (2 ^ 128)"
  have b0: "dval B = 2 ^ 128"
    unfolding B_def using dval_scaled [of 1 128] by simp
  have n: "normalize_pixel (Fin 1) (Fin 0) (Fin 1) = Inr (Fin 1)"
    using normalize_pixel_upper [of 0 1] by simp
  have e: "convert_to_pH (Fin 1) (Fin 0) (Fin 0) (Fin 0) (Fin B) = Fin B"
    by (simp add: convert_to_pH_def)
  have c: "to_float32 (convert_to_pH (Fin 1) (Fin 0) (Fin 0) (Fin 0) (Fin B)) = PInf"
    unfolding e by (simp add: b0 flt_overflow_def)
  have "process_image [unit_image] \<lparr>title = ''a.tif'', processor = 0\<rparr>
     (Fin 0) (Fin 1) (Fin 0) (Fin 0) (Fin 0) (Fin B)
   = Inr ([unit_image, unit_image,
           \<lparr>bitDepth = 32, ip_width = 1, ip_height = 1, ip_pixels = [PInf]\<rparr>],
          \<lparr>title = ''pH_a.tif'', processor = 2\<rparr>)"
    unfolding process_image_unfold
    by (simp add: unit_image_def FloatProcessor_def pixel_step_def getf_def
      setf_def n c Let_def del: to_float32.simps)
  then show ?thesis using b0 unfolding B_def by simp
qed

section \<open>Equal calibration bounds\<close>

lemma process_image_equal_bounds:
  assumes "processor img < length h"
    and "length (ip_pixels (h ! processor img)) =
           ip_width (h ! processor img) * ip_height (h ! processor img)"
    and "x < ip_width (h ! processor img)" and "y < ip_height (h ! processor img)"
    and "\<not> isnan (ip_pixels (h ! processor img) ! (y * ip_width (h ! processor img) + x))"
    and "ip_pixels (h ! processor img) ! (y * ip_width (h ! processor img) + x) \<noteq> Fin 0"
  shows "process_image h img (Fin l) (Fin l) B3 B2 B1 B0 = Inl ZeroDivisionError"
proof (rule process_image_err [OF assms(1,2) _ assms(3,4)])
  show "\<forall>i<length (ip_pixels (h ! processor img)).
       sample_value (Fin l) (Fin l) B3 B2 B1 B0 (ip_pixels (h ! processor img) ! i) = Inl ZeroDivisionError
       \<or> (\<exists>v. sample_value (Fin l) (Fin l) B3 B2 B1 B0 (ip_pixels (h ! processor img) ! i) = Inr v)"
    by (simp add: sample_value_equal_bounds)
  show "sample_value (Fin l) (Fin l) B3 B2 B1 B0
     (ip_pixels (h ! processor img) ! (y * ip_width (h ! processor img) + x)) = Inl ZeroDivisionError"
    using assms(5,6) by (simp add: sample_value_equal_bounds)
qed

lemma normalize_pixel_equal_bounds:
  "normalize_pixel s (Fin l) (Fin l) = Inl ZeroDivisionError"
  by (simp add: normalize_pixel_def fdiv_def fsub_Fin)

lemma main_first_file_raises:
  assumes "calibration e cfg = (evc, Inr (lo, up))"
    and "getFileList (listing e (input_dir cfg)) (input_dir cfg) [extension_ratio cfg] = Inr (file # files)"
    and "openImage e file = Some (t, p)" and "bitDepth p = 32"
    and "process_image [p] \<lparr>title = t, processor = 0\<rparr> lo up (cB3 cfg) (cB2 cfg) (cB1 cfg) (cB0 cfg) = Inl err"
  shows "snd (main e cfg) = Inl err"
  using assms
  by (simp add: main_def process_file_def progress_bar_def initial_state_def alloc_def Let_def)

text \<open>
  Claim C8. With equal finite bounds \<open>normalize_pixel\<close> raises
  \<open>ZeroDivisionError\<close> for every value; \<open>process_image\<close> raises it for every
  well-formed image holding a sample that is neither not-a-number nor zero; and nothing
  before the loop guards it: when calibration resolves to equal bounds and the first
  discovered file is such a 32-bit image, the whole run ends with that error. With
  bounds that differ the same image is transformed without error.
\<close>

theorem equal_bounds_division_by_zero:
  assumes "calibration e cfg = (evc, Inr (Fin l, Fin l))"
    and "getFileList (listing e (input_dir cfg)) (input_dir cfg) [extension_ratio cfg]
           = Inr (file # files)"
    and "openImage e file = Some (t, p)" and "bitDepth p = 32"
    and "length (ip_pixels p) = ip_width p * ip_height p"
    and "x < ip_width p" and "y < ip_height p"
    and "\<not> isnan (ip_pixels p ! (y * ip_width p + x))"
    and "ip_pixels p ! (y * ip_width p + x) \<noteq> Fin 0"
  shows "normalize_pixel (ip_pixels p ! (y * ip_width p + x)) (Fin l) (Fin l)
           = Inl ZeroDivisionError
       \<and> process_image [p] \<lparr>title = t, processor = 0\<rparr> (Fin l) (Fin l)
             (cB3 cfg) (cB2 cfg) (cB1 cfg) (cB0 cfg) = Inl ZeroDivisionError
       \<and> snd (main e cfg) = Inl ZeroDivisionError
       \<and> (\<forall>u. u \<noteq> l \<longrightarrow>
             (\<exists>res. process_image [p] \<lparr>title = t, processor = 0\<rparr> (Fin l) (Fin u)
                      (cB3 cfg) (cB2 cfg) (cB1 cfg) (cB0 cfg) = Inr res))"
proof -
  let ?img = "\<lparr>title = t, processor = 0\<rparr>"
  have wf: "processor ?img < length [p]"
    "length (ip_pixels ([p] ! processor ?img)) =
       ip_width ([p] ! processor ?img) * ip_height ([p] ! processor ?img)"
    using assms(5) by simp_all
  have raise: "process_image [p] ?img (Fin l) (Fin l) (cB3 cfg) (cB2 cfg) (cB1 cfg) (cB0 cfg)
      = Inl ZeroDivisionError"
    by (rule process_image_equal_bounds [OF wf, of x y]) (use assms(6-9) in simp_all)
  have run: "snd (main e cfg) = Inl ZeroDivisionError"
    using assms(1-4) raise by (rule main_first_file_raises)
  have total: "\<exists>res. process_image [p] ?img (Fin l) (Fin u)
                      (cB3 cfg) (cB2 cfg) (cB1 cfg) (cB0 cfg) = Inr res" if "u \<noteq> l" for u
  proof -
    from that have "l \<noteq> u" by simp
    from process_image_ok [OF wf] sample_value_ok_Fin [OF this] show ?thesis by blast
  qed
  show ?thesis using normalize_pixel_equal_bounds raise run total by blast
qed

theorem equal_bounds_division_by_zero_witness:
  "calibration demo_env equal_bounds_config = ([], Inr (Fin (D 100), Fin (D 100)))
   \<and> getFileList (listing demo_env (input_dir equal_bounds_config))
        (input_dir equal_bounds_config) [extension_ratio equal_bounds_config]
        = Inr [''/in/a.tif'']
   \<and> openImage demo_env ''/in/a.tif'' = Some (''a.tif'', demo_image)
   \<and> bitDepth demo_image = 32
   \<and> length (ip_pixels demo_image) = ip_width demo_image * ip_height demo_image
   \<and> 0 < ip_width demo_image \<and> 0 < ip_height demo_image
   \<and> \<not> isnan (ip_pixels demo_image ! (0 * ip_width demo_image + 0))
   \<and> ip_pixels demo_image ! (0 * ip_width demo_image + 0) \<noteq> Fin 0
   \<and> snd (main demo_env equal_bounds_config) = Inl ZeroDivisionError"
proof -
  have h1: "calibration demo_env equal_bounds_config = ([], Inr (Fin (D 100), Fin (D 100)))"
    by (simp add: calibration_def equal_bounds_config_def demo_config_def)
  have h2: "getFileList (listing demo_env (input_dir equal_bounds_config))
        (input_dir equal_bounds_config) [extension_ratio equal_bounds_config]
        = Inr [''/in/a.tif'']"
    by (simp add: equal_bounds_config_def demo_config_def demo_env_def getFileList_def
        fnmatch_def normcase_def lower_def lower_char_def os_path_join_def)
  have h3: "openImage demo_env ''/in/a.tif'' = Some (''a.tif'', demo_image)"
    by (simp add: demo_env_def)
  have h4: "bitDepth demo_image = 32"
    and h5: "length (ip_pixels demo_image) = ip_width demo_image * ip_height demo_image"
    and h6: "0 < ip_width demo_image" and h7: "0 < ip_height demo_image"
    and h8: "\<not> isnan (ip_pixels demo_image ! (0 * ip_width demo_image + 0))"
    and h9: "ip_pixels demo_image ! (0 * ip_width demo_image + 0) \<noteq> Fin 0"
    by (simp_all add: demo_image_def D_numeral_nonzero)
  from equal_bounds_division_by_zero [OF h1 h2 h3 h4 h5 h6 h7 h8 h9]
  have "snd (main demo_env equal_bounds_config) = Inl ZeroDivisionError" by blast
  with h1 h2 h3 h4 h5 h6 h7 h8 h9 show ?thesis by blast
qed

section \<open>File discovery\<close>

text \<open>
  Claim C6 does not hold of the code. With the filter \<open>TIF\<close> no file is selected,
  neither \<open>a.tif\<close> nor \<open>B.TIF\<close>: the name is lower-cased and the filter is not,
  although the lower-cased filters are computed. With the filter \<open>tif\<close> both files
  are selected.
\<close>

theorem getFileList_upper_case_filter:
  "getFileList (Some [File ''a.tif'', File ''B.TIF'']) ''/in'' [''TIF''] = Inr []
   \<and> getFileList (Some [File ''a.tif'', File ''B.TIF'']) ''/in'' [''tif'']
       = Inr [''/in/a.tif'', ''/in/B.TIF'']"
  by (simp add: getFileList_def fnmatch_def normcase_def lower_def lower_char_def os_path_join_def)

section \<open>Calibration\<close>

lemma get_mean_intensity_fails:
  "(\<exists>err. snd (get_mean_intensity e path) = Inl err) \<longleftrightarrow> calibration_image_rejected e path"
  by (auto simp: get_mean_intensity_def calibration_image_rejected_def split: option.splits)

lemma get_mean_intensity_events:
  "\<forall>ev \<in> set (fst (get_mean_intensity e path)).
      ev = OpenImage path \<or> (\<exists>m. ev = Timed_log m)"
  by (auto simp: get_mean_intensity_def timed_log_def split: option.splits)

lemma calibration_fails_iff:
  "(\<exists>err. snd (calibration e cfg) = Inl err) \<longleftrightarrow> calibration_invalid e cfg"
proof (cases "calib_mode cfg = ''From calibration images''")
  case True
  then have nm: "calib_mode cfg \<noteq> ''Manual''" by auto
  show ?thesis
  proof (cases "lower_image cfg")
    case None
    then show ?thesis using True by (simp add: calibration_def calibration_invalid_def)
  next
    case (Some lp)
    note lp = this
    show ?thesis
    proof (cases "upper_image cfg")
      case None
      then show ?thesis using True lp by (simp add: calibration_def calibration_invalid_def)
    next
      case (Some up)
      obtain ev1 r1 where g1: "get_mean_intensity e lp = (ev1, r1)" by (cases "get_mean_intensity e lp")
      obtain ev2 r2 where g2: "get_mean_intensity e up = (ev2, r2)" by (cases "get_mean_intensity e up")
      have r1: "(\<exists>err. r1 = Inl err) \<longleftrightarrow> calibration_image_rejected e lp"
        using get_mean_intensity_fails [of e lp] g1 by simp
      have r2: "(\<exists>err. r2 = Inl err) \<longleftrightarrow> calibration_image_rejected e up"
        using get_mean_intensity_fails [of e up] g2 by simp
      show ?thesis
        using True nm lp Some g1 g2 r1 r2
        by (cases r1; cases r2) (auto simp: calibration_def calibration_invalid_def)
    qed
  qed
next
  case False
  then show ?thesis
    by (auto simp: calibration_def calibration_invalid_def split: option.splits)
qed

lemma get_mean_intensity_no_batch:
  assumes "Some path = lower_image cfg \<or> Some path = upper_image cfg"
  shows "\<not> list_ex (batch_event cfg) (fst (get_mean_intensity e path))"
  using assms
  by (auto simp: get_mean_intensity_def timed_log_def list_ex_iff split: option.splits)

lemma calibration_events:
  "\<not> list_ex (batch_event cfg) (fst (calibration e cfg))"
proof (cases "calib_mode cfg = ''From calibration images''")
  case True
  show ?thesis
  proof (cases "lower_image cfg")
    case None
    then show ?thesis using True by (simp add: calibration_def timed_log_def)
  next
    case (Some lp)
    note lp = this
    show ?thesis
    proof (cases "upper_image cfg")
      case None
      then show ?thesis using True lp by (simp add: calibration_def timed_log_def)
    next
      case (Some up)
      obtain ev1 r1 where g1: "get_mean_intensity e lp = (ev1, r1)" by (cases "get_mean_intensity e lp")
      obtain ev2 r2 where g2: "get_mean_intensity e up = (ev2, r2)" by (cases "get_mean_intensity e up")
      have e1: "\<not> list_ex (batch_event cfg) ev1"
        using get_mean_intensity_no_batch [of lp cfg e] lp g1 by simp
      have e2: "\<not> list_ex (batch_event cfg) ev2"
        using get_mean_intensity_no_batch [of up cfg e] Some g2 by simp
      show ?thesis
        using True lp Some g1 g2 e1 e2
        by (cases r1; cases r2) (auto simp: calibration_def list_ex_iff)
    qed
  qed
next
  case False
  then show ?thesis
    by (auto simp: calibration_def timed_log_def split: option.splits)
qed

lemma main_calibration_error:
  assumes "snd (calibration e cfg) = Inl err"
  shows "main e cfg =
           ([IJ_log ([CHR 0x5C] @ ''Clear''), timed_log ''Script starting''] @ fst (calibration e cfg),
            Inl err)"
  using assms by (cases "calibration e cfg") (simp add: main_def)

text \<open>
  Claim C3. The calibration block raises exactly for the configurations the spec lists:
  manual mode with a ratio missing; image mode with a path missing or a calibration
  image that cannot be opened or is not 32-bit; any other mode. The run then ends with
  that error, its events are the two opening lines and those of the calibration block,
  and none of them is an event of the batch loop: no batch file is opened, transformed
  or saved.
\<close>

theorem calibration_failure_is_fatal:
  "((\<exists>err. snd (calibration e cfg) = Inl err) \<longleftrightarrow> calibration_invalid e cfg)
   \<and> (calibration_invalid e cfg \<longrightarrow>
        (\<exists>err. snd (calibration e cfg) = Inl err \<and> snd (main e cfg) = Inl err)
      \<and> fst (main e cfg) =
          [IJ_log ([CHR 0x5C] @ ''Clear''), Timed_log ''Script starting''] @ fst (calibration e cfg)
      \<and> \<not> list_ex (batch_event cfg) (fst (main e cfg)))"
proof (intro conjI impI)
  show "(\<exists>err. snd (calibration e cfg) = Inl err) \<longleftrightarrow> calibration_invalid e cfg"
    by (rule calibration_fails_iff)
next
  assume "calibration_invalid e cfg"
  then obtain err where err: "snd (calibration e cfg) = Inl err"
    using calibration_fails_iff by blast
  note m = main_calibration_error [OF err]
  show "\<exists>err. snd (calibration e cfg) = Inl err \<and> snd (main e cfg) = Inl err"
    using err m by simp
  show "fst (main e cfg) =
          [IJ_log ([CHR 0x5C] @ ''Clear''), Timed_log ''Script starting''] @ fst (calibration e cfg)"
    using m by (simp add: timed_log_def)
  show "\<not> list_ex (batch_event cfg) (fst (main e cfg))"
    using m calibration_events [of cfg e] by (simp add: timed_log_def)
qed

theorem calibration_failure_is_fatal_witness:
  "calibration_invalid bad_calibration_env bad_calibration_config
   \<and> main bad_calibration_env bad_calibration_config =
       ([IJ_log ([CHR 0x5C] @ ''Clear''), Timed_log ''Script starting'',
         OpenImage ''/cal/lo.tif'',
         Timed_log ''Error: Calibration image is not 32-bit: /cal/lo.tif''],
        Inl (ValueError ''Calibration image is not 32-bit: /cal/lo.tif''))
   \<and> \<not> list_ex (batch_event bad_calibration_config)
         (fst (main bad_calibration_env bad_calibration_config))"
proof -
  have inv: "calibration_invalid bad_calibration_env bad_calibration_config"
    by (simp add: calibration_invalid_def calibration_image_rejected_def
        bad_calibration_env_def bad_calibration_config_def demo_config_def demo_env_def
        demo_image_def)
  have cal: "calibration bad_calibration_env bad_calibration_config =
       ([OpenImage ''/cal/lo.tif'',
         Timed_log ''Error: Calibration image is not 32-bit: /cal/lo.tif''],
        Inl (ValueError ''Calibration image is not 32-bit: /cal/lo.tif''))"
    by (simp add: calibration_def get_mean_intensity_def timed_log_def
        bad_calibration_env_def bad_calibration_config_def demo_config_def demo_env_def
        demo_image_def)
  from calibration_failure_is_fatal [of bad_calibration_env bad_calibration_config] inv
  have "(\<exists>err. snd (calibration bad_calibration_env bad_calibration_config) = Inl err
            \<and> snd (main bad_calibration_env bad_calibration_config) = Inl err)"
    and "fst (main bad_calibration_env bad_calibration_config) =
          [IJ_log ([CHR 0x5C] @ ''Clear''), Timed_log ''Script starting'']
          @ fst (calibration bad_calibration_env bad_calibration_config)"
    and "\<not> list_ex (batch_event bad_calibration_config)
         (fst (main bad_calibration_env bad_calibration_config))"
    by blast+
  with inv cal show ?thesis
    by (cases "main bad_calibration_env bad_calibration_config") auto
qed

section \<open>The iterations of the batch loop\<close>

lemma progress_bar_line:
  "n \<noteq> 0 \<Longrightarrow> progress_bar i n 1 (''Processing: '' @ str_nat i) = Inr (progress_line i n)"
  by (simp add: progress_line_def progress_bar_def Let_def)

lemma str_nat_1: "str_nat 1 = ''1''"
  by (simp add: str_nat.simps digit_char_def)

lemma batch_event_progress_line: "n \<noteq> 0 \<Longrightarrow> batch_event cfg (progress_line i n)"
  by (simp add: progress_line_def progress_bar_def Let_def str_nat_1)

lemma process_file_no_image:
  assumes "n \<noteq> 0" and "openImage e file = None"
  shows "process_file e cfg lo up n st i file =
           ([progress_line i n, OpenImage file,
             Timed_log (''Info: Could not open image: '' @ os_path_basename file)], Inr st)"
  unfolding process_file_def progress_bar_line [OF assms(1)]
  using assms(2) by (simp add: timed_log_def)

lemma process_file_wrong_depth:
  assumes "n \<noteq> 0" and "openImage e file = Some (t, p)" and "bitDepth p \<noteq> 32"
  shows "process_file e cfg lo up n st i file =
           ([progress_line i n, OpenImage file,
             Timed_log (''Info: Image is not 32-bit: '' @ os_path_basename file)],
            Inr (st\<lparr>store := store st @ [p]\<rparr>))"
  unfolding process_file_def progress_bar_line [OF assms(1)]
  using assms(2,3) by (simp add: timed_log_def alloc_def)

lemma process_file_transform_error:
  assumes "n \<noteq> 0" and "openImage e file = Some (t, p)" and "bitDepth p = 32"
    and "process_image (store st @ [p]) \<lparr>title = t, processor = length (store st)\<rparr>
           lo up (cB3 cfg) (cB2 cfg) (cB1 cfg) (cB0 cfg) = Inl err"
  shows "process_file e cfg lo up n st i file = ([progress_line i n, OpenImage file], Inl err)"
  unfolding process_file_def progress_bar_line [OF assms(1)]
  using assms(2-) by (simp add: alloc_def)

lemma process_file_processed:
  assumes "n \<noteq> 0" and "openImage e file = Some (t, p)" and "bitDepth p = 32"
    and "process_image (store st @ [p]) \<lparr>title = t, processor = length (store st)\<rparr>
           lo up (cB3 cfg) (cB2 cfg) (cB1 cfg) (cB0 cfg) = Inr (h2, pH_img)"
  shows "process_file e cfg lo up n st i file =
           ([progress_line i n, OpenImage file] @ snd (resolve_lut e (lut st)) @
            [IJ_run (title pH_img) (fst (resolve_lut e (lut st))) [],
             SetMinAndMax (title pH_img) (pH_min cfg) (pH_max cfg),
             IJ_run (title pH_img) ''Calibration Bar...'' calibration_bar_options,
             SaveAs (title pH_img) ''Tiff'' (os_path_join (output_dir cfg) (title pH_img))],
            case saveAs_error e (os_path_join (output_dir cfg) (title pH_img)) of
              Some err \<Rightarrow> Inl err
            | None \<Rightarrow>
                Inr (st\<lparr>store := h2, lut := fst (resolve_lut e (lut st)),
                        out_files := (out_files st)
                          (os_path_join (output_dir cfg) (title pH_img) \<mapsto>
                             (title pH_img, h2 ! processor pH_img))\<rparr>))"
  unfolding process_file_def progress_bar_line [OF assms(1)]
  using assms(2-)
  by (cases "resolve_lut e (lut st)") (simp add: alloc_def Let_def split: option.splits)

lemma process_image_title:
  "process_image h img lo up B3 B2 B1 B0 = Inr (h2, out) \<Longrightarrow>
     title out = ''pH_'' @ title img \<and> processor out = Suc (length h)"
  by (auto simp: process_image_unfold split: sum.splits)

lemma main_loop_append:
  "main_loop e cfg lo up n st i (xs @ ys) =
     (case main_loop e cfg lo up n st i xs of
        (ev, Inl err) \<Rightarrow> (ev, Inl err)
      | (ev, Inr st') \<Rightarrow>
          (case main_loop e cfg lo up n st' (i + length xs) ys of
             (ev', res) \<Rightarrow> (ev @ ev', res)))"
proof (induction xs arbitrary: st i)
  case Nil
  then show ?case by (simp split: prod.splits)
next
  case (Cons x xs)
  show ?case
  proof (cases "process_file e cfg lo up n st i x")
    case (Pair ev r)
    show ?thesis
    proof (cases r)
      case (Inl err)
      with Pair show ?thesis by simp
    next
      case (Inr st1)
      with Pair Cons.IH [of st1 "Suc i"] show ?thesis
        by (simp split: prod.splits sum.splits)
    qed
  qed
qed

lemma resolve_lut_cases:
  "resolve_lut e name =
     (if getLut e name then (name, [])
      else (if getLut e ''Green Fire Blue'' then ''Green Fire Blue'' else ''Fire'',
            [Timed_log (''LUT '' @ [CHR 0x27] @ name @ [CHR 0x27] @ '' does not exist. Using default: ''
               @ [CHR 0x27] @ (if getLut e ''Green Fire Blue'' then ''Green Fire Blue'' else ''Fire'')
               @ [CHR 0x27])]))"
  by (simp add: resolve_lut_def timed_log_def)

lemma resolve_lut_no_finish: "finish_line \<notin> set (snd (resolve_lut e name))"
  by (simp add: resolve_lut_cases finish_line_def)

lemma progress_bar_no_finish: "progress_bar i n k prefix = Inr bar \<Longrightarrow> bar \<noteq> finish_line"
  by (auto simp: progress_bar_def finish_line_def Let_def split: if_splits)

lemma process_file_no_finish: "finish_line \<notin> set (fst (process_file e cfg lo up n st i file))"
proof (cases "progress_bar i n 1 (''Processing: '' @ str_nat i)")
  case (Inl err)
  then show ?thesis by (simp add: process_file_def)
next
  case (Inr bar)
  note bar = this
  have nb: "bar \<noteq> finish_line" using bar by (rule progress_bar_no_finish)
  show ?thesis
  proof (cases "openImage e file")
    case None
    show ?thesis
      unfolding process_file_def bar using None nb
      by (simp add: timed_log_def finish_line_def)
  next
    case (Some tp)
    obtain t p where tp: "tp = (t, p)" by (cases tp)
    show ?thesis
    proof (cases "bitDepth p = 32")
      case False
      show ?thesis
        unfolding process_file_def bar using Some tp False nb
        by (simp add: timed_log_def finish_line_def alloc_def)
    next
      case True
      show ?thesis
      proof (cases "process_image (store st @ [p]) \<lparr>title = t, processor = length (store st)\<rparr>
           lo up (cB3 cfg) (cB2 cfg) (cB1 cfg) (cB0 cfg)")
        case (Inl err)
        show ?thesis
          unfolding process_file_def bar using Some tp True nb Inl
          by (simp add: finish_line_def alloc_def)
      next
        case (Inr res)
        obtain h2 pH_img where res: "res = (h2, pH_img)" by (cases res)
        show ?thesis
          unfolding process_file_def bar
          using Some tp True nb Inr res resolve_lut_no_finish [of e "lut st"]
          by (cases "resolve_lut e (lut st)")
             (auto simp: finish_line_def alloc_def Let_def split: option.splits)
      qed
    qed
  qed
qed

lemma main_loop_no_finish:
  "finish_line \<notin> set (fst (main_loop e cfg lo up n st i files))"
proof (induction files arbitrary: st i)
  case Nil
  then show ?case by simp
next
  case (Cons f fs)
  show ?case
  proof (cases "process_file e cfg lo up n st i f")
    case (Pair ev r)
    have ev: "finish_line \<notin> set ev"
      using process_file_no_finish [of e cfg lo up n st i f] Pair by simp
    show ?thesis
    proof (cases r)
      case (Inl err)
      with Pair ev show ?thesis by simp
    next
      case (Inr st1)
      with Pair ev Cons.IH [of st1 "Suc i"] show ?thesis
        by (auto split: prod.splits)
    qed
  qed
qed

lemma get_mean_intensity_no_finish:
  "finish_line \<notin> set (fst (get_mean_intensity e path))"
  by (simp add: get_mean_intensity_def timed_log_def finish_line_def split: option.splits)

lemma calibration_no_finish: "finish_line \<notin> set (fst (calibration e cfg))"
proof -
  have "finish_line \<notin> set ev" if "get_mean_intensity e path = (ev, r)" for path ev r
    using get_mean_intensity_no_finish [of e path] that by simp
  then show ?thesis
    by (auto simp: calibration_def timed_log_def finish_line_def
        split: option.splits prod.splits sum.splits)
qed

lemma process_image_total:
  assumes "length (ip_pixels p) = ip_width p * ip_height p" and "l \<noteq> u"
  shows "\<exists>h2 out. process_image (h @ [p]) \<lparr>title = t, processor = length h\<rparr>
                     (Fin l) (Fin u) B3 B2 B1 B0 = Inr (h2, out)"
proof -
  let ?img = "\<lparr>title = t, processor = length h\<rparr>"
  have wf: "processor ?img < length (h @ [p])"
    "length (ip_pixels ((h @ [p]) ! processor ?img)) =
       ip_width ((h @ [p]) ! processor ?img) * ip_height ((h @ [p]) ! processor ?img)"
    using assms(1) by simp_all
  from process_image_ok [OF wf] sample_value_ok_Fin [OF assms(2)] show ?thesis by blast
qed

lemma main_abort_at_file:
  assumes "calibration e cfg = (evc, Inr (lo, up))"
    and "getFileList (listing e (input_dir cfg)) (input_dir cfg) [extension_ratio cfg]
           = Inr (pre @ file # rest)"
    and "main_loop e cfg lo up (length (pre @ file # rest)) (initial_state cfg) 1 pre
           = (ev_pre, Inr st)"
    and "process_file e cfg lo up (length (pre @ file # rest)) st (Suc (length pre)) file
           = (ev, Inl err)"
  shows "main e cfg =
           ([IJ_log ([CHR 0x5C] @ ''Clear''), Timed_log ''Script starting''] @ evc @ ev_pre @ ev,
            Inl err)"
proof -
  have "main_loop e cfg lo up (length (pre @ file # rest)) (initial_state cfg) 1
          (pre @ file # rest) = (ev_pre @ ev, Inl err)"
    using assms(3,4) by (simp add: main_loop_append)
  then show ?thesis
    using assms(1,2) by (simp add: main_def timed_log_def)
qed

section \<open>The save step\<close>

lemma failing_files:
  "getFileList (listing failing_save_env (input_dir demo_config)) (input_dir demo_config)
     [extension_ratio demo_config] = Inr ([] @ ''/in/a.tif'' # [''/in/b.tif''])"
  by (simp add: demo_config_def failing_save_env_def getFileList_def
        fnmatch_def normcase_def lower_def lower_char_def os_path_join_def)

text \<open>
  Claim C5. When the files before it went through and the file opens as a 32-bit image
  that is transformed, its iteration ends with the save of the result under the title
  \<open>pH_\<close> and the original title, at that name in the output directory. If the save
  succeeds the file written at that path is the result. If the save raises, the whole
  run ends with that error: its events stop at this save, nothing is done for the
  remaining files, and the completion line is not logged.
\<close>

theorem save_failure_aborts:
  assumes "calibration e cfg = (evc, Inr (lo, up))"
    and "getFileList (listing e (input_dir cfg)) (input_dir cfg) [extension_ratio cfg]
           = Inr (pre @ file # rest)"
    and "main_loop e cfg lo up (length (pre @ file # rest)) (initial_state cfg) 1 pre
           = (ev_pre, Inr st)"
    and "openImage e file = Some (t, p)" and "bitDepth p = 32"
    and "process_image (store st @ [p]) \<lparr>title = t, processor = length (store st)\<rparr>
           lo up (cB3 cfg) (cB2 cfg) (cB1 cfg) (cB0 cfg) = Inr (h2, pH_img)"
  shows "\<exists>ev res.
      process_file e cfg lo up (length (pre @ file # rest)) st (Suc (length pre)) file = (ev, res)
    \<and> ev \<noteq> []
    \<and> last ev = SaveAs (''pH_'' @ t) ''Tiff'' (os_path_join (output_dir cfg) (''pH_'' @ t))
    \<and> (saveAs_error e (os_path_join (output_dir cfg) (''pH_'' @ t)) = None \<longrightarrow>
         (\<exists>st'. res = Inr st'
              \<and> out_files st' (os_path_join (output_dir cfg) (''pH_'' @ t))
                  = Some (''pH_'' @ t, h2 ! processor pH_img)))
    \<and> (\<forall>err. saveAs_error e (os_path_join (output_dir cfg) (''pH_'' @ t)) = Some err \<longrightarrow>
         main e cfg =
           ([IJ_log ([CHR 0x5C] @ ''Clear''), Timed_log ''Script starting''] @ evc @ ev_pre @ ev,
            Inl err)
       \<and> last (fst (main e cfg))
           = SaveAs (''pH_'' @ t) ''Tiff'' (os_path_join (output_dir cfg) (''pH_'' @ t))
       \<and> finish_line \<notin> set (fst (main e cfg)))"
proof -
  let ?n = "length (pre @ file # rest)"
  let ?path = "os_path_join (output_dir cfg) (''pH_'' @ t)"
  have n: "?n \<noteq> 0" by simp
  have ti: "title pH_img = ''pH_'' @ t"
    using process_image_title [OF assms(6)] by simp
  obtain ev res where pf: "process_file e cfg lo up ?n st (Suc (length pre)) file = (ev, res)"
    by (cases "process_file e cfg lo up ?n st (Suc (length pre)) file")
  note shape = process_file_processed [OF n assms(4,5,6), where i = "Suc (length pre)"]
  have ev: "ev = [progress_line (Suc (length pre)) ?n, OpenImage file] @ snd (resolve_lut e (lut st)) @
            [IJ_run (title pH_img) (fst (resolve_lut e (lut st))) [],
             SetMinAndMax (title pH_img) (pH_min cfg) (pH_max cfg),
             IJ_run (title pH_img) ''Calibration Bar...'' calibration_bar_options,
             SaveAs (title pH_img) ''Tiff'' (os_path_join (output_dir cfg) (title pH_img))]"
    using pf shape by simp
  have res: "res = (case saveAs_error e ?path of
              Some err \<Rightarrow> Inl err
            | None \<Rightarrow>
                Inr (st\<lparr>store := h2, lut := fst (resolve_lut e (lut st)),
                        out_files := (out_files st)(?path \<mapsto> (''pH_'' @ t, h2 ! processor pH_img))\<rparr>))"
    using pf shape ti by (simp split: option.splits)
  have nonempty: "ev \<noteq> []" using ev by simp
  have lst: "last ev = SaveAs (''pH_'' @ t) ''Tiff'' ?path"
    using ev ti by simp
  have ok: "\<exists>st'. res = Inr st' \<and> out_files st' ?path = Some (''pH_'' @ t, h2 ! processor pH_img)"
    if "saveAs_error e ?path = None"
    using res that by simp
  have bad: "main e cfg =
           ([IJ_log ([CHR 0x5C] @ ''Clear''), Timed_log ''Script starting''] @ evc @ ev_pre @ ev,
            Inl err)
       \<and> last (fst (main e cfg)) = SaveAs (''pH_'' @ t) ''Tiff'' ?path
       \<and> finish_line \<notin> set (fst (main e cfg))"
    if "saveAs_error e ?path = Some err" for err
  proof -
    have r: "res = Inl err" using res that by simp
    have m: "main e cfg =
           ([IJ_log ([CHR 0x5C] @ ''Clear''), Timed_log ''Script starting''] @ evc @ ev_pre @ ev,
            Inl err)"
      using assms(1,2,3) pf [unfolded r] by (rule main_abort_at_file)
    have f1: "finish_line \<notin> set evc"
      using calibration_no_finish [of e cfg] assms(1) by simp
    have f2: "finish_line \<notin> set ev_pre"
      using main_loop_no_finish [of e cfg lo up ?n "initial_state cfg" 1 pre] assms(3) by simp
    have f3: "finish_line \<notin> set ev"
      using process_file_no_finish [of e cfg lo up ?n st "Suc (length pre)" "file"] pf by simp
    show ?thesis
      using m nonempty lst f1 f2 f3 by (simp add: finish_line_def)
  qed
  show ?thesis
  proof (intro exI conjI)
    show "process_file e cfg lo up ?n st (Suc (length pre)) file = (ev, res)" by (rule pf)
    show "ev \<noteq> []" by (rule nonempty)
    show "last ev = SaveAs (''pH_'' @ t) ''Tiff'' ?path" by (rule lst)
    show "saveAs_error e ?path = None \<longrightarrow>
         (\<exists>st'. res = Inr st' \<and> out_files st' ?path = Some (''pH_'' @ t, h2 ! processor pH_img))"
      using ok by blast
    show "\<forall>err. saveAs_error e ?path = Some err \<longrightarrow>
         main e cfg =
           ([IJ_log ([CHR 0x5C] @ ''Clear''), Timed_log ''Script starting''] @ evc @ ev_pre @ ev,
            Inl err)
       \<and> last (fst (main e cfg)) = SaveAs (''pH_'' @ t) ''Tiff'' ?path
       \<and> finish_line \<notin> set (fst (main e cfg))"
      using bad by blast
  qed
qed

theorem save_failure_aborts_witness:
  "calibration failing_save_env demo_config = ([], Inr (Fin (D 100), Fin (D 200)))
   \<and> getFileList (listing failing_save_env (input_dir demo_config)) (input_dir demo_config)
        [extension_ratio demo_config] = Inr ([] @ ''/in/a.tif'' # [''/in/b.tif''])
   \<and> openImage failing_save_env ''/in/a.tif'' = Some (''a.tif'', demo_image)
   \<and> bitDepth demo_image = 32
   \<and> saveAs_error failing_save_env (os_path_join (output_dir demo_config) (''pH_'' @ ''a.tif''))
       = Some (SaveError ''cannot write'')
   \<and> snd (main failing_save_env demo_config) = Inl (SaveError ''cannot write'')
   \<and> last (fst (main failing_save_env demo_config)) = SaveAs ''pH_a.tif'' ''Tiff'' ''/out/pH_a.tif''
   \<and> finish_line \<notin> set (fst (main failing_save_env demo_config))"
proof -
  have h1: "calibration failing_save_env demo_config = ([], Inr (Fin (D 100), Fin (D 200)))"
    by (simp add: calibration_def demo_config_def)
  note h2 = failing_files
  have h3: "main_loop failing_save_env demo_config (Fin (D 100)) (Fin (D 200))
              (length ([] @ ''/in/a.tif'' # [''/in/b.tif''])) (initial_state demo_config) 1 []
            = ([], Inr (initial_state demo_config))"
    by simp
  have h4: "openImage failing_save_env ''/in/a.tif'' = Some (''a.tif'', demo_image)"
    by (simp add: failing_save_env_def)
  have h5: "bitDepth demo_image = 32" by (simp add: demo_image_def)
  have "\<exists>h2 out. process_image (([]::heap) @ [demo_image])
                     \<lparr>title = ''a.tif'', processor = length ([]::heap)\<rparr>
                     (Fin (D 100)) (Fin (D 200)) (Fin 0) (Fin 0) (Fin 1) (Fin 0) = Inr (h2, out)"
    by (rule process_image_total) (simp_all add: demo_image_def D_100_200)
  then obtain h2 out where
    h6: "process_image (store (initial_state demo_config) @ [demo_image])
              \<lparr>title = ''a.tif'', processor = length (store (initial_state demo_config))\<rparr>
              (Fin (D 100)) (Fin (D 200)) (cB3 demo_config) (cB2 demo_config) (cB1 demo_config) (cB0 demo_config)
            = Inr (h2, out)"
    by (auto simp: initial_state_def demo_config_def)
  have h7: "saveAs_error failing_save_env (os_path_join (output_dir demo_config) (''pH_'' @ ''a.tif''))
       = Some (SaveError ''cannot write'')"
    by (simp add: failing_save_env_def)
  have p: "os_path_join (output_dir demo_config) (''pH_'' @ ''a.tif'') = ''/out/pH_a.tif''"
    by (simp add: os_path_join_def demo_config_def)
  from save_failure_aborts [OF h1 h2 h3 h4 h5 h6] h7
  have "snd (main failing_save_env demo_config) = Inl (SaveError ''cannot write'')
      \<and> last (fst (main failing_save_env demo_config))
           = SaveAs (''pH_'' @ ''a.tif'') ''Tiff'' (os_path_join (output_dir demo_config) (''pH_'' @ ''a.tif''))
      \<and> finish_line \<notin> set (fst (main failing_save_env demo_config))"
    by fastforce
  then show ?thesis using h1 h2 h4 h5 h7 p by simp
qed

section \<open>The batch scenario\<close>

lemma three_files_loop:
  assumes "l \<noteq> u"
    and "openImage e a = Some (ta, pa)" and "bitDepth pa \<noteq> 32"
    and "openImage e b = None"
    and "openImage e c = Some (tc, pc)" and "bitDepth pc = 32"
    and "length (ip_pixels pc) = ip_width pc * ip_height pc"
    and "saveAs_error e (os_path_join (output_dir cfg) (''pH_'' @ tc)) = None"
  shows "\<exists>st. main_loop e cfg (Fin l) (Fin u) (length [a, b, c]) (initial_state cfg) 1 [a, b, c] =
      ([progress_line 1 3, OpenImage a,
        Timed_log (''Info: Image is not 32-bit: '' @ os_path_basename a),
        progress_line 2 3, OpenImage b,
        Timed_log (''Info: Could not open image: '' @ os_path_basename b),
        progress_line 3 3, OpenImage c] @
       snd (resolve_lut e (lut_method cfg)) @
       [IJ_run (''pH_'' @ tc) (fst (resolve_lut e (lut_method cfg))) [],
        SetMinAndMax (''pH_'' @ tc) (pH_min cfg) (pH_max cfg),
        IJ_run (''pH_'' @ tc) ''Calibration Bar...'' calibration_bar_options,
        SaveAs (''pH_'' @ tc) ''Tiff'' (os_path_join (output_dir cfg) (''pH_'' @ tc))],
       Inr st)
    \<and> dom (out_files st) = {os_path_join (output_dir cfg) (''pH_'' @ tc)}"
proof -
  let ?st0 = "initial_state cfg"
  let ?st1 = "?st0\<lparr>store := store ?st0 @ [pa]\<rparr>"
  let ?lo = "Fin l" and ?up = "Fin u"
  have n: "(3::nat) \<noteq> 0" by simp
  have fa: "process_file e cfg ?lo ?up 3 ?st0 1 a =
      ([progress_line 1 3, OpenImage a,
        Timed_log (''Info: Image is not 32-bit: '' @ os_path_basename a)], Inr ?st1)"
    using n assms(2,3) by (rule process_file_wrong_depth)
  have fb: "process_file e cfg ?lo ?up 3 ?st1 2 b =
      ([progress_line 2 3, OpenImage b,
        Timed_log (''Info: Could not open image: '' @ os_path_basename b)], Inr ?st1)"
    using n assms(4) by (rule process_file_no_image)
  from process_image_total [OF assms(7,1), of "store ?st1" tc "cB3 cfg" "cB2 cfg" "cB1 cfg" "cB0 cfg"]
  obtain h2 out where tr: "process_image (store ?st1 @ [pc])
      \<lparr>title = tc, processor = length (store ?st1)\<rparr> ?lo ?up
      (cB3 cfg) (cB2 cfg) (cB1 cfg) (cB0 cfg) = Inr (h2, out)" by blast
  have ti: "title out = ''pH_'' @ tc" using process_image_title [OF tr] by simp
  let ?path = "os_path_join (output_dir cfg) (''pH_'' @ tc)"
  let ?st3 = "?st1\<lparr>store := h2, lut := fst (resolve_lut e (lut ?st1)),
                out_files := (out_files ?st1)(?path \<mapsto> (''pH_'' @ tc, h2 ! processor out))\<rparr>"
  have fc: "process_file e cfg ?lo ?up 3 ?st1 3 c =
      ([progress_line 3 3, OpenImage c] @ snd (resolve_lut e (lut ?st1)) @
       [IJ_run (''pH_'' @ tc) (fst (resolve_lut e (lut ?st1))) [],
        SetMinAndMax (''pH_'' @ tc) (pH_min cfg) (pH_max cfg),
        IJ_run (''pH_'' @ tc) ''Calibration Bar...'' calibration_bar_options,
        SaveAs (''pH_'' @ tc) ''Tiff'' ?path], Inr ?st3)"
    using process_file_processed [OF n assms(5,6) tr, where i = 3] assms(8) ti by simp
  have lut1: "lut ?st1 = lut_method cfg" by (simp add: initial_state_def)
  have loop: "main_loop e cfg ?lo ?up (length [a, b, c]) ?st0 1 [a, b, c] =
      ([progress_line 1 3, OpenImage a,
        Timed_log (''Info: Image is not 32-bit: '' @ os_path_basename a),
        progress_line 2 3, OpenImage b,
        Timed_log (''Info: Could not open image: '' @ os_path_basename b),
        progress_line 3 3, OpenImage c] @
       snd (resolve_lut e (lut_method cfg)) @
       [IJ_run (''pH_'' @ tc) (fst (resolve_lut e (lut_method cfg))) [],
        SetMinAndMax (''pH_'' @ tc) (pH_min cfg) (pH_max cfg),
        IJ_run (''pH_'' @ tc) ''Calibration Bar...'' calibration_bar_options,
        SaveAs (''pH_'' @ tc) ''Tiff'' ?path], Inr ?st3)"
    using fa fb fc lut1 by (simp add: numeral_2_eq_2 numeral_3_eq_3)
  have "dom (out_files ?st3) = {?path}" by (simp add: initial_state_def)
  with loop show ?thesis by blast
qed

lemma not_mentions: "c \<notin> set s \<Longrightarrow> mentions (c # w) s = False"
  by (induction s) auto

lemma three_files_inputs:
  "calibration three_files_env demo_config = ([], Inr (Fin (D 100), Fin (D 200)))"
  "D 100 \<noteq> D 200"
  "getFileList (listing three_files_env (input_dir demo_config)) (input_dir demo_config)
     [extension_ratio demo_config] = Inr [''/in/A.tif'', ''/in/B.tif'', ''/in/C.tif'']"
  "openImage three_files_env ''/in/A.tif'' = Some (''A.tif'', demo_image\<lparr>bitDepth := 16\<rparr>)"
  "bitDepth (demo_image\<lparr>bitDepth := 16\<rparr>) \<noteq> 32"
  "openImage three_files_env ''/in/B.tif'' = None"
  "openImage three_files_env ''/in/C.tif'' = Some (''C.tif'', demo_image)"
  "bitDepth demo_image = 32"
  "length (ip_pixels demo_image) = ip_width demo_image * ip_height demo_image"
  "saveAs_error three_files_env (os_path_join (output_dir demo_config) (''pH_'' @ ''C.tif'')) = None"
  by (simp_all add: calibration_def demo_config_def three_files_env_def demo_image_def
      getFileList_def fnmatch_def normcase_def lower_def lower_char_def os_path_join_def D_100_200)

text \<open>
  Claim C4, as amended. For the discovered files \<open>a\<close> of a wrong bit depth,
  \<open>b\<close> that does not open and \<open>c\<close> a well-formed 32-bit image, with finite
  bounds that differ and a save that succeeds, the run logs one skip line for \<open>a\<close>
  and one for \<open>b\<close>, goes on after each, transforms and saves \<open>c\<close> under the title
  \<open>pH_\<close> and \<open>c\<close>'s title, logs completion, and has written exactly that one
  file. These are all the events of the run: no counters are kept or reported.
\<close>

theorem batch_three_files:
  assumes "calibration e cfg = (evc, Inr (Fin l, Fin u))" and "l \<noteq> u"
    and "getFileList (listing e (input_dir cfg)) (input_dir cfg) [extension_ratio cfg]
           = Inr [a, b, c]"
    and "openImage e a = Some (ta, pa)" and "bitDepth pa \<noteq> 32"
    and "openImage e b = None"
    and "openImage e c = Some (tc, pc)" and "bitDepth pc = 32"
    and "length (ip_pixels pc) = ip_width pc * ip_height pc"
    and "saveAs_error e (os_path_join (output_dir cfg) (''pH_'' @ tc)) = None"
  shows "\<exists>st. main e cfg =
      ([IJ_log ([CHR 0x5C] @ ''Clear''), Timed_log ''Script starting''] @ evc @
       [progress_line 1 3, OpenImage a,
        Timed_log (''Info: Image is not 32-bit: '' @ os_path_basename a),
        progress_line 2 3, OpenImage b,
        Timed_log (''Info: Could not open image: '' @ os_path_basename b),
        progress_line 3 3, OpenImage c] @
       snd (resolve_lut e (lut_method cfg)) @
       [IJ_run (''pH_'' @ tc) (fst (resolve_lut e (lut_method cfg))) [],
        SetMinAndMax (''pH_'' @ tc) (pH_min cfg) (pH_max cfg),
        IJ_run (''pH_'' @ tc) ''Calibration Bar...'' calibration_bar_options,
        SaveAs (''pH_'' @ tc) ''Tiff'' (os_path_join (output_dir cfg) (''pH_'' @ tc)),
        Timed_log ''Script finished !'', Print ''Script finished !''],
       Inr st)
    \<and> dom (out_files st) = {os_path_join (output_dir cfg) (''pH_'' @ tc)}"
proof -
  from three_files_loop [OF assms(2) assms(4-10)]
  obtain st where loop: "main_loop e cfg (Fin l) (Fin u) (length [a, b, c]) (initial_state cfg) 1 [a, b, c] =
      ([progress_line 1 3, OpenImage a,
        Timed_log (''Info: Image is not 32-bit: '' @ os_path_basename a),
        progress_line 2 3, OpenImage b,
        Timed_log (''Info: Could not open image: '' @ os_path_basename b),
        progress_line 3 3, OpenImage c] @
       snd (resolve_lut e (lut_method cfg)) @
       [IJ_run (''pH_'' @ tc) (fst (resolve_lut e (lut_method cfg))) [],
        SetMinAndMax (''pH_'' @ tc) (pH_min cfg) (pH_max cfg),
        IJ_run (''pH_'' @ tc) ''Calibration Bar...'' calibration_bar_options,
        SaveAs (''pH_'' @ tc) ''Tiff'' (os_path_join (output_dir cfg) (''pH_'' @ tc))],
       Inr st)"
    and written: "dom (out_files st) = {os_path_join (output_dir cfg) (''pH_'' @ tc)}"
    by blast
  have "main e cfg =
      ([IJ_log ([CHR 0x5C] @ ''Clear''), Timed_log ''Script starting''] @ evc @
       [progress_line 1 3, OpenImage a,
        Timed_log (''Info: Image is not 32-bit: '' @ os_path_basename a),
        progress_line 2 3, OpenImage b,
        Timed_log (''Info: Could not open image: '' @ os_path_basename b),
        progress_line 3 3, OpenImage c] @
       snd (resolve_lut e (lut_method cfg)) @
       [IJ_run (''pH_'' @ tc) (fst (resolve_lut e (lut_method cfg))) [],
        SetMinAndMax (''pH_'' @ tc) (pH_min cfg) (pH_max cfg),
        IJ_run (''pH_'' @ tc) ''Calibration Bar...'' calibration_bar_options,
        SaveAs (''pH_'' @ tc) ''Tiff'' (os_path_join (output_dir cfg) (''pH_'' @ tc)),
        Timed_log ''Script finished !'', Print ''Script finished !''],
       Inr st)"
    using assms(1,3) loop by (simp add: main_def timed_log_def del: main_loop.simps)
  with written show ?thesis by blast
qed

theorem batch_three_files_witness:
  "calibration three_files_env demo_config = ([], Inr (Fin (D 100), Fin (D 200)))
   \<and> D 100 \<noteq> D 200
   \<and> getFileList (listing three_files_env (input_dir demo_config)) (input_dir demo_config)
        [extension_ratio demo_config] = Inr [''/in/A.tif'', ''/in/B.tif'', ''/in/C.tif'']
   \<and> openImage three_files_env ''/in/A.tif'' = Some (''A.tif'', demo_image\<lparr>bitDepth := 16\<rparr>)
   \<and> bitDepth (demo_image\<lparr>bitDepth := 16\<rparr>) \<noteq> 32
   \<and> openImage three_files_env ''/in/B.tif'' = None
   \<and> openImage three_files_env ''/in/C.tif'' = Some (''C.tif'', demo_image)
   \<and> bitDepth demo_image = 32
   \<and> length (ip_pixels demo_image) = ip_width demo_image * ip_height demo_image
   \<and> saveAs_error three_files_env (os_path_join (output_dir demo_config) (''pH_'' @ ''C.tif'')) = None
   \<and> (\<exists>st. snd (main three_files_env demo_config) = Inr st
            \<and> dom (out_files st) = {''/out/pH_C.tif''})"
proof -
  have p: "os_path_join (output_dir demo_config) (''pH_'' @ ''C.tif'') = ''/out/pH_C.tif''"
    by (simp add: os_path_join_def demo_config_def)
  from batch_three_files [OF three_files_inputs]
  obtain st where "snd (main three_files_env demo_config) = Inr st"
    and "dom (out_files st) = {os_path_join (output_dir demo_config) (''pH_'' @ ''C.tif'')}"
    by force
  then have "\<exists>st. snd (main three_files_env demo_config) = Inr st
            \<and> dom (out_files st) = {''/out/pH_C.tif''}"
    using p by auto
  with three_files_inputs show ?thesis by blast
qed

text \<open>
  Claim C4 as stated fails in its last part: in the scenario the run emits the events
  below and none of them reports a count of processed or skipped files.
\<close>

theorem three_files_no_counts:
  "fst (main three_files_env demo_config) =
     [IJ_log ([CHR 0x5C] @ ''Clear''), Timed_log ''Script starting'',
      progress_line 1 3, OpenImage ''/in/A.tif'', Timed_log ''Info: Image is not 32-bit: A.tif'',
      progress_line 2 3, OpenImage ''/in/B.tif'', Timed_log ''Info: Could not open image: B.tif'',
      progress_line 3 3, OpenImage ''/in/C.tif'',
      IJ_run ''pH_C.tif'' ''Fire'' [], SetMinAndMax ''pH_C.tif'' (Fin (D 5)) (Fin (D 7)),
      IJ_run ''pH_C.tif'' ''Calibration Bar...'' calibration_bar_options,
      SaveAs ''pH_C.tif'' ''Tiff'' ''/out/pH_C.tif'',
      Timed_log ''Script finished !'', Print ''Script finished !'']
   \<and> \<not> list_ex reports_counts (fst (main three_files_env demo_config))"
proof -
  from three_files_loop [OF three_files_inputs(2) three_files_inputs(4-10)]
  obtain st where "main_loop three_files_env demo_config (Fin (D 100)) (Fin (D 200))
        (length [''/in/A.tif'', ''/in/B.tif'', ''/in/C.tif'']) (initial_state demo_config) 1
        [''/in/A.tif'', ''/in/B.tif'', ''/in/C.tif''] =
      ([progress_line 1 3, OpenImage ''/in/A.tif'',
        Timed_log (''Info: Image is not 32-bit: '' @ os_path_basename ''/in/A.tif''),
        progress_line 2 3, OpenImage ''/in/B.tif'',
        Timed_log (''Info: Could not open image: '' @ os_path_basename ''/in/B.tif''),
        progress_line 3 3, OpenImage ''/in/C.tif''] @
       snd (resolve_lut three_files_env (lut_method demo_config)) @
       [IJ_run (''pH_'' @ ''C.tif'') (fst (resolve_lut three_files_env (lut_method demo_config))) [],
        SetMinAndMax (''pH_'' @ ''C.tif'') (pH_min demo_config) (pH_max demo_config),
        IJ_run (''pH_'' @ ''C.tif'') ''Calibration Bar...'' calibration_bar_options,
        SaveAs (''pH_'' @ ''C.tif'') ''Tiff'' (os_path_join (output_dir demo_config) (''pH_'' @ ''C.tif''))],
       Inr st)" by blast
  then have m: "main three_files_env demo_config =
      ([IJ_log ([CHR 0x5C] @ ''Clear''), Timed_log ''Script starting''] @ [] @
       [progress_line 1 3, OpenImage ''/in/A.tif'',
        Timed_log (''Info: Image is not 32-bit: '' @ os_path_basename ''/in/A.tif''),
        progress_line 2 3, OpenImage ''/in/B.tif'',
        Timed_log (''Info: Could not open image: '' @ os_path_basename ''/in/B.tif''),
        progress_line 3 3, OpenImage ''/in/C.tif''] @
       snd (resolve_lut three_files_env (lut_method demo_config)) @
       [IJ_run (''pH_'' @ ''C.tif'') (fst (resolve_lut three_files_env (lut_method demo_config))) [],
        SetMinAndMax (''pH_'' @ ''C.tif'') (pH_min demo_config) (pH_max demo_config),
        IJ_run (''pH_'' @ ''C.tif'') ''Calibration Bar...'' calibration_bar_options,
        SaveAs (''pH_'' @ ''C.tif'') ''Tiff'' (os_path_join (output_dir demo_config) (''pH_'' @ ''C.tif'')),
        Timed_log ''Script finished !'', Print ''Script finished !''],
       Inr st)"
    using three_files_inputs(1,3) by (simp add: main_def timed_log_def del: main_loop.simps)
  have ev: "fst (main three_files_env demo_config) =
     [IJ_log ([CHR 0x5C] @ ''Clear''), Timed_log ''Script starting'',
      progress_line 1 3, OpenImage ''/in/A.tif'', Timed_log ''Info: Image is not 32-bit: A.tif'',
      progress_line 2 3, OpenImage ''/in/B.tif'', Timed_log ''Info: Could not open image: B.tif'',
      progress_line 3 3, OpenImage ''/in/C.tif'',
      IJ_run ''pH_C.tif'' ''Fire'' [], SetMinAndMax ''pH_C.tif'' (Fin (D 5)) (Fin (D 7)),
      IJ_run ''pH_C.tif'' ''Calibration Bar...'' calibration_bar_options,
      SaveAs ''pH_C.tif'' ''Tiff'' ''/out/pH_C.tif'',
      Timed_log ''Script finished !'', Print ''Script finished !'']"
    unfolding m
    by (simp add: resolve_lut_cases os_path_basename_def os_path_join_def demo_config_def
        three_files_env_def)
  have "\<not> list_ex reports_counts (fst (main three_files_env demo_config))"
    unfolding ev
    by (simp add: reports_counts_def progress_line_def progress_bar_def str_nat.simps
        digit_char_def Let_def not_mentions)
  with ev show ?thesis by blast
qed

section \<open>Progress reporting\<close>

lemma is_progress_line: "n \<noteq> 0 \<Longrightarrow> is_progress (progress_line i n)"
  by (simp add: progress_line_def progress_bar_def Let_def str_nat_1)

lemma resolve_lut_quiet:
  "\<not> list_ex is_progress (snd (resolve_lut e name)) \<and> \<not> list_ex is_open (snd (resolve_lut e name))"
  by (simp add: resolve_lut_cases)

lemma process_file_block:
  assumes "n \<noteq> 0" and "process_file e cfg lo up n st i file = (ev, Inr st')"
  shows "\<exists>rest. ev = progress_line i n # OpenImage file # rest
           \<and> \<not> list_ex is_progress rest \<and> \<not> list_ex is_open rest"
proof (cases "openImage e file")
  case None
  from process_file_no_image [OF assms(1) None, of cfg lo up st i] assms(2)
  show ?thesis by auto
next
  case (Some tp)
  obtain t p where tp: "tp = (t, p)" by (cases tp)
  with Some have op: "openImage e file = Some (t, p)" by simp
  show ?thesis
  proof (cases "bitDepth p = 32")
    case False
    from process_file_wrong_depth [OF assms(1) op False, of cfg lo up st i] assms(2)
    show ?thesis by auto
  next
    case True
    show ?thesis
    proof (cases "process_image (store st @ [p]) \<lparr>title = t, processor = length (store st)\<rparr>
           lo up (cB3 cfg) (cB2 cfg) (cB1 cfg) (cB0 cfg)")
      case (Inl err)
      from process_file_transform_error [OF assms(1) op True Inl, of i] assms(2)
      show ?thesis by simp
    next
      case (Inr res)
      obtain h2 pH_img where res: "res = (h2, pH_img)" by (cases res)
      from process_file_processed [OF assms(1) op True Inr [unfolded res], of i] assms(2)
      have "ev = progress_line i n # OpenImage file # (snd (resolve_lut e (lut st)) @
            [IJ_run (title pH_img) (fst (resolve_lut e (lut st))) [],
             SetMinAndMax (title pH_img) (pH_min cfg) (pH_max cfg),
             IJ_run (title pH_img) ''Calibration Bar...'' calibration_bar_options,
             SaveAs (title pH_img) ''Tiff'' (os_path_join (output_dir cfg) (title pH_img))])"
        by simp
      then show ?thesis using resolve_lut_quiet [of e "lut st"] by (auto simp: list_ex_iff)
    qed
  qed
qed

lemma main_loop_blocks:
  assumes "n \<noteq> 0" and "main_loop e cfg lo up n st i files = (ev, Inr st')"
  shows "\<exists>evs. length evs = length files \<and> ev = concat evs
           \<and> (\<forall>k < length files. \<exists>rest.
                 evs ! k = progress_line (i + k) n # OpenImage (files ! k) # rest
               \<and> \<not> list_ex is_progress rest \<and> \<not> list_ex is_open rest)"
  using assms(2)
proof (induction files arbitrary: st i ev)
  case Nil
  then show ?case by simp
next
  case (Cons f fs)
  obtain ev1 r1 where pf: "process_file e cfg lo up n st i f = (ev1, r1)"
    by (cases "process_file e cfg lo up n st i f")
  show ?case
  proof (cases r1)
    case (Inl err)
    with pf Cons.prems show ?thesis by simp
  next
    case (Inr st1)
    obtain ev2 r2 where ml: "main_loop e cfg lo up n st1 (Suc i) fs = (ev2, r2)"
      by (cases "main_loop e cfg lo up n st1 (Suc i) fs")
    from pf Inr ml Cons.prems have ev: "ev = ev1 @ ev2" and r2: "r2 = Inr st'" by simp_all
    from process_file_block [OF assms(1) pf [unfolded Inr]]
    obtain rest where b1: "ev1 = progress_line i n # OpenImage f # rest"
      and q1: "\<not> list_ex is_progress rest" "\<not> list_ex is_open rest" by blast
    from Cons.IH [OF ml [unfolded r2]]
    obtain evs where len: "length evs = length fs" and cc: "ev2 = concat evs"
      and blocks: "\<forall>k < length fs. \<exists>rest.
                 evs ! k = progress_line (Suc i + k) n # OpenImage (fs ! k) # rest
               \<and> \<not> list_ex is_progress rest \<and> \<not> list_ex is_open rest" by blast
    have "\<exists>rest'. (ev1 # evs) ! k = progress_line (i + k) n # OpenImage ((f # fs) ! k) # rest'
               \<and> \<not> list_ex is_progress rest' \<and> \<not> list_ex is_open rest'"
      if "k < length (f # fs)" for k
    proof (cases k)
      case 0
      then show ?thesis using b1 q1 by simp
    next
      case (Suc j)
      with that have "j < length fs" by simp
      with blocks Suc show ?thesis by simp
    qed
    moreover have "length (ev1 # evs) = length (f # fs)" using len by simp
    moreover have "ev = concat (ev1 # evs)" using ev cc by simp
    ultimately show ?thesis by blast
  qed
qed

lemma process_image_last:
  assumes "process_image h img lo up B3 B2 B1 B0 = Inr (h2, out)"
  shows "h2 \<noteq> [] \<and> h2 ! processor out = last h2"
proof -
  let ?h0 = "h @ [(h ! processor img)\<lparr>bitDepth := 32\<rparr>,
               FloatProcessor (ip_width (h ! processor img)) (ip_height (h ! processor img))]"
  have len_x: "length h' = length h0"
    if "loop_x ip pH lo up B3 B2 B1 B0 y xs h0 = Inr h'" for ip pH y xs h0 h'
    using that
  proof (induction xs arbitrary: h0)
    case Nil
    then show ?case by simp
  next
    case (Cons x xs)
    then show ?case
      by (auto simp: pixel_step_def setf_def getf_def Let_def split: sum.splits if_splits)
  qed
  have len_y: "length h' = length h0"
    if "loop_y ip pH lo up B3 B2 B1 B0 w ys h0 = Inr h'" for ip pH w ys h0 h'
    using that
  proof (induction ys arbitrary: h0)
    case Nil
    then show ?case by simp
  next
    case (Cons y ys)
    then show ?case using len_x by (auto split: sum.splits)
  qed
  from assms have run: "loop_y (length h) (Suc (length h)) lo up B3 B2 B1 B0
      (ip_width (h ! processor img)) [0..<ip_height (h ! processor img)] ?h0 = Inr h2"
    and p: "processor out = Suc (length h)"
    by (auto simp: process_image_unfold split: sum.splits)
  from len_y [OF run] have len: "length h2 = length h + 2" by simp
  then have "h2 \<noteq> []" by auto
  moreover have "last h2 = h2 ! (length h2 - 1)" using \<open>h2 \<noteq> []\<close> by (rule last_conv_nth)
  ultimately show ?thesis using len p by simp
qed

lemma one_file_loop:
  assumes "l \<noteq> u" and "n \<noteq> 0"
    and "openImage e c = Some (tc, pc)" and "bitDepth pc = 32"
    and "length (ip_pixels pc) = ip_width pc * ip_height pc"
    and "saveAs_error e (os_path_join (output_dir cfg) (''pH_'' @ tc)) = None"
  shows "\<exists>st'. process_file e cfg (Fin l) (Fin u) n st i c =
      ([progress_line i n, OpenImage c] @ snd (resolve_lut e (lut st)) @
       [IJ_run (''pH_'' @ tc) (fst (resolve_lut e (lut st))) [],
        SetMinAndMax (''pH_'' @ tc) (pH_min cfg) (pH_max cfg),
        IJ_run (''pH_'' @ tc) ''Calibration Bar...'' calibration_bar_options,
        SaveAs (''pH_'' @ tc) ''Tiff'' (os_path_join (output_dir cfg) (''pH_'' @ tc))],
       Inr st')
    \<and> lut st' = fst (resolve_lut e (lut st))
    \<and> out_files st' = (out_files st)
          (os_path_join (output_dir cfg) (''pH_'' @ tc) \<mapsto> (''pH_'' @ tc, last (store st')))"
proof -
  from process_image_total [OF assms(5,1), of "store st" tc "cB3 cfg" "cB2 cfg" "cB1 cfg" "cB0 cfg"]
  obtain h2 out where tr: "process_image (store st @ [pc])
      \<lparr>title = tc, processor = length (store st)\<rparr> (Fin l) (Fin u)
      (cB3 cfg) (cB2 cfg) (cB1 cfg) (cB0 cfg) = Inr (h2, out)" by blast
  have ti: "title out = ''pH_'' @ tc"
    using process_image_title [OF tr] by simp
  have lastq: "h2 ! processor out = last h2"
    using process_image_last [OF tr] by simp
  let ?path = "os_path_join (output_dir cfg) (''pH_'' @ tc)"
  let ?st' = "st\<lparr>store := h2, lut := fst (resolve_lut e (lut st)),
                out_files := (out_files st)(?path \<mapsto> (''pH_'' @ tc, h2 ! processor out))\<rparr>"
  have pf: "process_file e cfg (Fin l) (Fin u) n st i c =
      ([progress_line i n, OpenImage c] @ snd (resolve_lut e (lut st)) @
       [IJ_run (''pH_'' @ tc) (fst (resolve_lut e (lut st))) [],
        SetMinAndMax (''pH_'' @ tc) (pH_min cfg) (pH_max cfg),
        IJ_run (''pH_'' @ tc) ''Calibration Bar...'' calibration_bar_options,
        SaveAs (''pH_'' @ tc) ''Tiff'' ?path],
       Inr ?st')"
    unfolding process_file_processed [OF assms(2,3,4) tr, where i = i] ti
    using assms(6) by simp
  have "lut ?st' = fst (resolve_lut e (lut st))" by simp
  moreover have "out_files ?st' = (out_files st)(?path \<mapsto> (''pH_'' @ tc, last (store ?st')))"
    using lastq by simp
  ultimately show ?thesis using pf by blast
qed

lemma demo_inputs:
  "calibration demo_env demo_config = ([], Inr (Fin (D 100), Fin (D 200)))"
  "getFileList (listing demo_env (input_dir demo_config)) (input_dir demo_config)
     [extension_ratio demo_config] = Inr [''/in/a.tif'']"
  by (simp_all add: calibration_def demo_config_def demo_env_def
      getFileList_def fnmatch_def normcase_def lower_def lower_char_def os_path_join_def)

lemma demo_run:
  "\<exists>st. main demo_env demo_config =
     ([IJ_log ([CHR 0x5C] @ ''Clear''), Timed_log ''Script starting'',
       progress_line 1 1, OpenImage ''/in/a.tif'',
       IJ_run ''pH_a.tif'' ''Fire'' [], SetMinAndMax ''pH_a.tif'' (Fin (D 5)) (Fin (D 7)),
       IJ_run ''pH_a.tif'' ''Calibration Bar...'' calibration_bar_options,
       SaveAs ''pH_a.tif'' ''Tiff'' ''/out/pH_a.tif'',
       Timed_log ''Script finished !'', Print ''Script finished !''], Inr st)"
proof -
  have a: "D 100 \<noteq> D 200" "(1::nat) \<noteq> 0"
    "openImage demo_env ''/in/a.tif'' = Some (''a.tif'', demo_image)"
    "bitDepth demo_image = 32"
    "length (ip_pixels demo_image) = ip_width demo_image * ip_height demo_image"
    "saveAs_error demo_env (os_path_join (output_dir demo_config) (''pH_'' @ ''a.tif'')) = None"
    by (simp_all add: demo_env_def demo_image_def D_100_200)
  from one_file_loop [OF a, where st = "initial_state demo_config" and i = 1]
  obtain st' where "process_file demo_env demo_config (Fin (D 100)) (Fin (D 200)) 1 (initial_state demo_config) 1
      ''/in/a.tif'' =
      ([progress_line 1 1, OpenImage ''/in/a.tif''] @
       snd (resolve_lut demo_env (lut (initial_state demo_config))) @
       [IJ_run (''pH_'' @ ''a.tif'') (fst (resolve_lut demo_env (lut (initial_state demo_config)))) [],
        SetMinAndMax (''pH_'' @ ''a.tif'') (pH_min demo_config) (pH_max demo_config),
        IJ_run (''pH_'' @ ''a.tif'') ''Calibration Bar...'' calibration_bar_options,
        SaveAs (''pH_'' @ ''a.tif'') ''Tiff'' (os_path_join (output_dir demo_config) (''pH_'' @ ''a.tif''))],
       Inr st')" by blast
  then have "main demo_env demo_config =
     ([IJ_log ([CHR 0x5C] @ ''Clear''), Timed_log ''Script starting'',
       progress_line 1 1, OpenImage ''/in/a.tif'',
       IJ_run ''pH_a.tif'' ''Fire'' [], SetMinAndMax ''pH_a.tif'' (Fin (D 5)) (Fin (D 7)),
       IJ_run ''pH_a.tif'' ''Calibration Bar...'' calibration_bar_options,
       SaveAs ''pH_a.tif'' ''Tiff'' ''/out/pH_a.tif'',
       Timed_log ''Script finished !'', Print ''Script finished !''], Inr st')"
    using demo_inputs
    by (simp add: main_def timed_log_def resolve_lut_cases initial_state_def os_path_join_def
        demo_config_def demo_env_def)
  then show ?thesis ..
qed

text \<open>
  Claim C9, as amended. In a run that completes, the events of the batch loop are one
  block per discovered file, in order; the block of file \<open>i\<close> of \<open>n\<close> starts with the
  progress line \<open>(i, n)\<close>, followed by the opening of the file and then by the events
  of its remaining steps, none of which is a progress line or an opening. So progress
  is reported at the start of each file's iteration, before the file is opened,
  validated, transformed, visualised and saved, and after the steps of the file before.
\<close>

theorem progress_before_each_file:
  assumes "calibration e cfg = (evc, Inr (lo, up))"
    and "getFileList (listing e (input_dir cfg)) (input_dir cfg) [extension_ratio cfg] = Inr files"
    and "snd (main e cfg) = Inr st"
  shows "\<exists>evs. length evs = length files
      \<and> fst (main e cfg) =
          [IJ_log ([CHR 0x5C] @ ''Clear''), Timed_log ''Script starting''] @ evc @ concat evs @
          [Timed_log ''Script finished !'', Print ''Script finished !'']
      \<and> (\<forall>k < length files. \<exists>rest.
            evs ! k = progress_line (Suc k) (length files) # OpenImage (files ! k) # rest
          \<and> \<not> list_ex is_progress rest \<and> \<not> list_ex is_open rest)"
proof -
  obtain evl r where ml: "main_loop e cfg lo up (length files) (initial_state cfg) 1 files = (evl, r)"
    by (cases "main_loop e cfg lo up (length files) (initial_state cfg) 1 files")
  have r: "r = Inr st"
    using assms ml by (cases r) (simp_all add: main_def)
  have m: "fst (main e cfg) =
          [IJ_log ([CHR 0x5C] @ ''Clear''), Timed_log ''Script starting''] @ evc @ evl @
          [Timed_log ''Script finished !'', Print ''Script finished !'']"
    using assms(1,2) ml r by (simp add: main_def timed_log_def)
  have "\<exists>evs. length evs = length files \<and> evl = concat evs
           \<and> (\<forall>k < length files. \<exists>rest.
                 evs ! k = progress_line (1 + k) (length files) # OpenImage (files ! k) # rest
               \<and> \<not> list_ex is_progress rest \<and> \<not> list_ex is_open rest)"
  proof (cases "files = []")
    case True
    with ml show ?thesis by simp
  next
    case False
    then have "length files \<noteq> 0" by simp
    from main_loop_blocks [OF this ml [unfolded r]] show ?thesis .
  qed
  then obtain evs where "length evs = length files" "evl = concat evs"
    "\<forall>k < length files. \<exists>rest.
        evs ! k = progress_line (Suc k) (length files) # OpenImage (files ! k) # rest
      \<and> \<not> list_ex is_progress rest \<and> \<not> list_ex is_open rest"
    by auto
  with m show ?thesis by blast
qed

theorem progress_before_each_file_witness:
  "calibration demo_env demo_config = ([], Inr (Fin (D 100), Fin (D 200)))
   \<and> getFileList (listing demo_env (input_dir demo_config)) (input_dir demo_config)
        [extension_ratio demo_config] = Inr [''/in/a.tif'']
   \<and> (\<exists>st. snd (main demo_env demo_config) = Inr st)
   \<and> (\<exists>evs rest. length evs = 1
        \<and> fst (main demo_env demo_config) =
            [IJ_log ([CHR 0x5C] @ ''Clear''), Timed_log ''Script starting''] @ concat evs @
            [Timed_log ''Script finished !'', Print ''Script finished !'']
        \<and> evs ! 0 = progress_line 1 1 # OpenImage ''/in/a.tif'' # rest
        \<and> \<not> list_ex is_progress rest)"
proof -
  from demo_run obtain st where st: "snd (main demo_env demo_config) = Inr st" by force
  from progress_before_each_file [OF demo_inputs st]
  obtain evs where "length evs = length [''/in/a.tif'']"
    and "fst (main demo_env demo_config) =
          [IJ_log ([CHR 0x5C] @ ''Clear''), Timed_log ''Script starting''] @ [] @ concat evs @
          [Timed_log ''Script finished !'', Print ''Script finished !'']"
    and "\<forall>k < length [''/in/a.tif'']. \<exists>rest.
            evs ! k = progress_line (Suc k) (length [''/in/a.tif'']) # OpenImage ([''/in/a.tif''] ! k) # rest
          \<and> \<not> list_ex is_progress rest \<and> \<not> list_ex is_open rest"
    by blast
  then have "\<exists>evs rest. length evs = 1
        \<and> fst (main demo_env demo_config) =
            [IJ_log ([CHR 0x5C] @ ''Clear''), Timed_log ''Script starting''] @ concat evs @
            [Timed_log ''Script finished !'', Print ''Script finished !'']
        \<and> evs ! 0 = progress_line 1 1 # OpenImage ''/in/a.tif'' # rest
        \<and> \<not> list_ex is_progress rest"
    by fastforce
  with demo_inputs st show ?thesis by blast
qed

text \<open>
  Claim C9 as stated fails: in the run over the single file of the example the progress
  line \<open>(1, 1)\<close> is the third event, before the file is opened, and no progress line
  follows the opening, the visualisation and the save.
\<close>

theorem progress_reported_before_processing:
  "fst (main demo_env demo_config) =
     [IJ_log ([CHR 0x5C] @ ''Clear''), Timed_log ''Script starting'',
      progress_line 1 1, OpenImage ''/in/a.tif'',
      IJ_run ''pH_a.tif'' ''Fire'' [], SetMinAndMax ''pH_a.tif'' (Fin (D 5)) (Fin (D 7)),
      IJ_run ''pH_a.tif'' ''Calibration Bar...'' calibration_bar_options,
      SaveAs ''pH_a.tif'' ''Tiff'' ''/out/pH_a.tif'',
      Timed_log ''Script finished !'', Print ''Script finished !'']
   \<and> is_progress (progress_line 1 1)
   \<and> \<not> list_ex is_progress (drop 3 (fst (main demo_env demo_config)))"
proof -
  from demo_run obtain st where m: "main demo_env demo_config =
     ([IJ_log ([CHR 0x5C] @ ''Clear''), Timed_log ''Script starting'',
       progress_line 1 1, OpenImage ''/in/a.tif'',
       IJ_run ''pH_a.tif'' ''Fire'' [], SetMinAndMax ''pH_a.tif'' (Fin (D 5)) (Fin (D 7)),
       IJ_run ''pH_a.tif'' ''Calibration Bar...'' calibration_bar_options,
       SaveAs ''pH_a.tif'' ''Tiff'' ''/out/pH_a.tif'',
       Timed_log ''Script finished !'', Print ''Script finished !''], Inr st)" by blast
  have "is_progress (progress_line 1 1)" by (rule is_progress_line) simp
  then show ?thesis unfolding m by simp
qed

section \<open>Output paths\<close>

lemma process_image_pixels:
  assumes "processor img < length h"
    and "length (ip_pixels (h ! processor img)) = ip_width (h ! processor img) * ip_height (h ! processor img)"
    and "\<forall>i < length (ip_pixels (h ! processor img)).
           \<exists>v. sample_value lo up B3 B2 B1 B0 (ip_pixels (h ! processor img) ! i) = Inr v"
    and "process_image h img lo up B3 B2 B1 B0 = Inr (h2, out)"
  shows "ip_pixels (h2 ! processor out) = map (out_px lo up B3 B2 B1 B0) (ip_pixels (h ! processor img))"
proof -
  let ?src = "h ! processor img"
  let ?w = "ip_width ?src" and ?hgt = "ip_height ?src"
  from process_image_ok [OF assms(1,2,3)] assms(4)
  have len: "length (ip_pixels (h2 ! processor out)) = length (ip_pixels ?src)"
    and px: "\<forall>x < ?w. \<forall>y < ?hgt. ip_pixels (h2 ! processor out) ! (y * ?w + x) =
                out_px lo up B3 B2 B1 B0 (ip_pixels ?src ! (y * ?w + x))"
    by auto
  show ?thesis
  proof (rule nth_equalityI)
    show "length (ip_pixels (h2 ! processor out)) = length (map (out_px lo up B3 B2 B1 B0) (ip_pixels ?src))"
      using len by simp
  next
    fix i assume "i < length (ip_pixels (h2 ! processor out))"
    then have i: "i < ?w * ?hgt" using len assms(2) by simp
    then have w: "0 < ?w" by (cases "?w = 0") auto
    have x: "i mod ?w < ?w" using w by simp
    have y: "i div ?w < ?hgt" using i w by (simp add: less_mult_imp_div_less mult.commute)
    have eq: "(i div ?w) * ?w + i mod ?w = i" by simp
    from px x y have "ip_pixels (h2 ! processor out) ! ((i div ?w) * ?w + i mod ?w) =
                out_px lo up B3 B2 B1 B0 (ip_pixels ?src ! ((i div ?w) * ?w + i mod ?w))"
      by blast
    then show "ip_pixels (h2 ! processor out) ! i = map (out_px lo up B3 B2 B1 B0) (ip_pixels ?src) ! i"
      using eq i assms(2) by simp
  qed
qed

lemma one_file_output:
  assumes "l \<noteq> u" and "n \<noteq> 0"
    and "openImage e c = Some (tc, pc)" and "bitDepth pc = 32"
    and "length (ip_pixels pc) = ip_width pc * ip_height pc"
    and "saveAs_error e (os_path_join (output_dir cfg) (''pH_'' @ tc)) = None"
  shows "\<exists>ev st'. process_file e cfg (Fin l) (Fin u) n st i c = (ev, Inr st')
    \<and> ev \<noteq> []
    \<and> last ev = SaveAs (''pH_'' @ tc) ''Tiff'' (os_path_join (output_dir cfg) (''pH_'' @ tc))
    \<and> out_files st' = (out_files st)
          (os_path_join (output_dir cfg) (''pH_'' @ tc) \<mapsto> (''pH_'' @ tc, last (store st')))
    \<and> ip_pixels (last (store st')) =
          map (out_px (Fin l) (Fin u) (cB3 cfg) (cB2 cfg) (cB1 cfg) (cB0 cfg)) (ip_pixels pc)"
proof -
  let ?img = "\<lparr>title = tc, processor = length (store st)\<rparr>"
  from process_image_total [OF assms(5,1), of "store st" tc "cB3 cfg" "cB2 cfg" "cB1 cfg" "cB0 cfg"]
  obtain h2 out where tr: "process_image (store st @ [pc]) ?img (Fin l) (Fin u)
      (cB3 cfg) (cB2 cfg) (cB1 cfg) (cB0 cfg) = Inr (h2, out)" by blast
  have ti: "title out = ''pH_'' @ tc"
    using process_image_title [OF tr] by simp
  have lastq: "h2 ! processor out = last h2"
    using process_image_last [OF tr] by simp
  have wf: "processor ?img < length (store st @ [pc])"
    "length (ip_pixels ((store st @ [pc]) ! processor ?img)) =
       ip_width ((store st @ [pc]) ! processor ?img) * ip_height ((store st @ [pc]) ! processor ?img)"
    using assms(5) by simp_all
  have all: "\<forall>i < length (ip_pixels ((store st @ [pc]) ! processor ?img)).
      \<exists>v. sample_value (Fin l) (Fin u) (cB3 cfg) (cB2 cfg) (cB1 cfg) (cB0 cfg)
            (ip_pixels ((store st @ [pc]) ! processor ?img) ! i) = Inr v"
    using sample_value_ok_Fin [OF assms(1)] by blast
  have pix: "ip_pixels (last h2) =
      map (out_px (Fin l) (Fin u) (cB3 cfg) (cB2 cfg) (cB1 cfg) (cB0 cfg)) (ip_pixels pc)"
    using process_image_pixels [OF wf all tr] lastq by simp
  let ?path = "os_path_join (output_dir cfg) (''pH_'' @ tc)"
  let ?st' = "st\<lparr>store := h2, lut := fst (resolve_lut e (lut st)),
                out_files := (out_files st)(?path \<mapsto> (''pH_'' @ tc, h2 ! processor out))\<rparr>"
  let ?ev = "[progress_line i n, OpenImage c] @ snd (resolve_lut e (lut st)) @
       [IJ_run (''pH_'' @ tc) (fst (resolve_lut e (lut st))) [],
        SetMinAndMax (''pH_'' @ tc) (pH_min cfg) (pH_max cfg),
        IJ_run (''pH_'' @ tc) ''Calibration Bar...'' calibration_bar_options,
        SaveAs (''pH_'' @ tc) ''Tiff'' ?path]"
  have pf: "process_file e cfg (Fin l) (Fin u) n st i c = (?ev, Inr ?st')"
    unfolding process_file_processed [OF assms(2,3,4) tr, where i = i] ti
    using assms(6) by simp
  have "?ev \<noteq> []" by simp
  moreover have "last ?ev = SaveAs (''pH_'' @ tc) ''Tiff'' ?path" by simp
  moreover have "out_files ?st' = (out_files st)(?path \<mapsto> (''pH_'' @ tc, last (store ?st')))"
    using lastq by simp
  moreover have "ip_pixels (last (store ?st')) =
      map (out_px (Fin l) (Fin u) (cB3 cfg) (cB2 cfg) (cB1 cfg) (cB0 cfg)) (ip_pixels pc)"
    using pix by simp
  ultimately show ?thesis using pf by blast
qed

lemma sample_value_cases:
  "sample_value lo up B3 B2 B1 B0 s = Inl ZeroDivisionError
   \<or> (\<exists>v. sample_value lo up B3 B2 B1 B0 s = Inr v)"
  by (simp add: sample_value_def normalize_pixel_def fdiv_def)

lemma process_image_success_samples:
  assumes "processor img < length h"
    and "length (ip_pixels (h ! processor img)) = ip_width (h ! processor img) * ip_height (h ! processor img)"
    and "process_image h img lo up B3 B2 B1 B0 = Inr res"
    and "i < length (ip_pixels (h ! processor img))"
  shows "\<exists>v. sample_value lo up B3 B2 B1 B0 (ip_pixels (h ! processor img) ! i) = Inr v"
proof (rule ccontr)
  let ?src = "h ! processor img"
  let ?w = "ip_width ?src" and ?hgt = "ip_height ?src"
  assume "\<not> (\<exists>v. sample_value lo up B3 B2 B1 B0 (ip_pixels ?src ! i) = Inr v)"
  then have bad: "sample_value lo up B3 B2 B1 B0 (ip_pixels ?src ! i) = Inl ZeroDivisionError"
    using sample_value_cases [of lo up B3 B2 B1 B0 "ip_pixels ?src ! i"] by blast
  have i: "i < ?w * ?hgt" using assms(2,4) by simp
  then have w: "0 < ?w" by (cases "?w = 0") auto
  have x: "i mod ?w < ?w" using w by simp
  have y: "i div ?w < ?hgt" using i w by (simp add: less_mult_imp_div_less mult.commute)
  have eq: "(i div ?w) * ?w + i mod ?w = i" by simp
  have all: "\<forall>j < length (ip_pixels ?src).
           sample_value lo up B3 B2 B1 B0 (ip_pixels ?src ! j) = Inl ZeroDivisionError
           \<or> (\<exists>v. sample_value lo up B3 B2 B1 B0 (ip_pixels ?src ! j) = Inr v)"
    using sample_value_cases by blast
  have "process_image h img lo up B3 B2 B1 B0 = Inl ZeroDivisionError"
    by (rule process_image_err [OF assms(1,2) all x y]) (simp only: eq bad)
  then show False using assms(3) by simp
qed

text \<open>One iteration that ends without an exception on a file that opens as a
  well-formed 32-bit image: it saves the transform of that image under the title
  \<open>pH_\<close> and the image's title, in the output directory.\<close>

lemma process_file_saved:
  assumes "process_file e cfg lo up n st i c = (ev, Inr st')"
    and "openImage e c = Some (tc, pc)" and "bitDepth pc = 32"
    and "length (ip_pixels pc) = ip_width pc * ip_height pc"
  shows "ev \<noteq> []
    \<and> last ev = SaveAs (''pH_'' @ tc) ''Tiff'' (os_path_join (output_dir cfg) (''pH_'' @ tc))
    \<and> out_files st' = (out_files st)
          (os_path_join (output_dir cfg) (''pH_'' @ tc) \<mapsto> (''pH_'' @ tc, last (store st')))
    \<and> ip_pixels (last (store st')) =
          map (out_px lo up (cB3 cfg) (cB2 cfg) (cB1 cfg) (cB0 cfg)) (ip_pixels pc)"
proof -
  let ?img = "\<lparr>title = tc, processor = length (store st)\<rparr>"
  let ?path = "os_path_join (output_dir cfg) (''pH_'' @ tc)"
  have n: "n \<noteq> 0"
  proof
    assume "n = 0"
    then have "process_file e cfg lo up n st i c = ([], Inl ZeroDivisionError)"
      by (simp add: process_file_def progress_bar_def)
    with assms(1) show False by simp
  qed
  obtain h2 out where tr: "process_image (store st @ [pc]) ?img lo up
      (cB3 cfg) (cB2 cfg) (cB1 cfg) (cB0 cfg) = Inr (h2, out)"
  proof (cases "process_image (store st @ [pc]) ?img lo up (cB3 cfg) (cB2 cfg) (cB1 cfg) (cB0 cfg)")
    case (Inl err)
    from process_file_transform_error [OF n assms(2,3) Inl, where i = i] assms(1)
    show ?thesis by simp
  next
    case (Inr r)
    then show ?thesis using that by (cases r) simp
  qed
  have ti: "title out = ''pH_'' @ tc"
    using process_image_title [OF tr] by simp
  have lastq: "h2 ! processor out = last h2"
    using process_image_last [OF tr] by simp
  have wf: "processor ?img < length (store st @ [pc])"
    "length (ip_pixels ((store st @ [pc]) ! processor ?img)) =
       ip_width ((store st @ [pc]) ! processor ?img) * ip_height ((store st @ [pc]) ! processor ?img)"
    using assms(4) by simp_all
  have all: "\<forall>i < length (ip_pixels ((store st @ [pc]) ! processor ?img)).
      \<exists>v. sample_value lo up (cB3 cfg) (cB2 cfg) (cB1 cfg) (cB0 cfg)
            (ip_pixels ((store st @ [pc]) ! processor ?img) ! i) = Inr v"
    using process_image_success_samples [OF wf tr] by blast
  have pix: "ip_pixels (last h2) =
      map (out_px lo up (cB3 cfg) (cB2 cfg) (cB1 cfg) (cB0 cfg)) (ip_pixels pc)"
    using process_image_pixels [OF wf all tr] lastq by simp
  let ?st' = "st\<lparr>store := h2, lut := fst (resolve_lut e (lut st)),
                out_files := (out_files st)(?path \<mapsto> (''pH_'' @ tc, h2 ! processor out))\<rparr>"
  let ?ev = "[progress_line i n, OpenImage c] @ snd (resolve_lut e (lut st)) @
       [IJ_run (''pH_'' @ tc) (fst (resolve_lut e (lut st))) [],
        SetMinAndMax (''pH_'' @ tc) (pH_min cfg) (pH_max cfg),
        IJ_run (''pH_'' @ tc) ''Calibration Bar...'' calibration_bar_options,
        SaveAs (''pH_'' @ tc) ''Tiff'' ?path]"
  have pf: "(ev, Inr st') = (?ev, case saveAs_error e ?path of Some err \<Rightarrow> Inl err | None \<Rightarrow> Inr ?st')"
    using assms(1) unfolding process_file_processed [OF n assms(2,3) tr, where i = i] ti
    by simp
  then have ev: "ev = ?ev" and st': "st' = ?st'"
    by (auto split: option.splits)
  show ?thesis
    unfolding ev st' using lastq pix by simp
qed

text \<open>An iteration changes the file at a path only by saving there.\<close>

lemma os_path_join_title:
  "os_path_join d (''pH_'' @ t) = os_path_join d (''pH_'' @ t') \<longleftrightarrow> t = t'"
  by (simp add: os_path_join_def)

lemma process_file_frame:
  assumes "process_file e cfg lo up n st i c = (ev, Inr st')"
    and "\<forall>t p. openImage e c = Some (t, p) \<longrightarrow> t \<noteq> tc"
  shows "out_files st' (os_path_join (output_dir cfg) (''pH_'' @ tc))
           = out_files st (os_path_join (output_dir cfg) (''pH_'' @ tc))"
proof -
  have n: "n \<noteq> 0"
  proof
    assume "n = 0"
    then have "process_file e cfg lo up n st i c = ([], Inl ZeroDivisionError)"
      by (simp add: process_file_def progress_bar_def)
    with assms(1) show False by simp
  qed
  show ?thesis
  proof (cases "openImage e c")
    case None
    from process_file_no_image [OF n None, where i = i] assms(1) show ?thesis by simp
  next
    case (Some tp)
    obtain t p where tp: "tp = (t, p)" by (cases tp)
    with Some have op: "openImage e c = Some (t, p)" by simp
    with assms(2) have ne: "t \<noteq> tc" by blast
    show ?thesis
    proof (cases "bitDepth p = 32")
      case False
      from process_file_wrong_depth [OF n op False, where i = i] assms(1) show ?thesis by auto
    next
      case True
      let ?img = "\<lparr>title = t, processor = length (store st)\<rparr>"
      show ?thesis
      proof (cases "process_image (store st @ [p]) ?img lo up (cB3 cfg) (cB2 cfg) (cB1 cfg) (cB0 cfg)")
        case (Inl err)
        from process_file_transform_error [OF n op True Inl, where i = i] assms(1)
        show ?thesis by simp
      next
        case (Inr r)
        obtain h2 out where r: "r = (h2, out)" by (cases r)
        with Inr have tr: "process_image (store st @ [p]) ?img lo up
            (cB3 cfg) (cB2 cfg) (cB1 cfg) (cB0 cfg) = Inr (h2, out)" by simp
        have ti: "title out = ''pH_'' @ t" using process_image_title [OF tr] by simp
        have "st' = st\<lparr>store := h2, lut := fst (resolve_lut e (lut st)),
                out_files := (out_files st)(os_path_join (output_dir cfg) (''pH_'' @ t)
                   \<mapsto> (''pH_'' @ t, h2 ! processor out))\<rparr>"
          using assms(1) unfolding process_file_processed [OF n op True tr, where i = i] ti
          by (auto split: option.splits)
        then show ?thesis using ne os_path_join_title [of "output_dir cfg" tc t] by simp
      qed
    qed
  qed
qed

lemma main_loop_Cons_Inr:
  assumes "main_loop e cfg lo up n st i (c # cs) = (ev, Inr st')"
  shows "\<exists>ev1 s1 ev2. process_file e cfg lo up n st i c = (ev1, Inr s1)
         \<and> main_loop e cfg lo up n s1 (Suc i) cs = (ev2, Inr st') \<and> ev = ev1 @ ev2"
  using assms by (auto split: prod.splits sum.splits)

lemma main_loop_append_Inr:
  assumes "main_loop e cfg lo up n st i (xs @ ys) = (ev, Inr st')"
  shows "\<exists>ev1 s1 ev2. main_loop e cfg lo up n st i xs = (ev1, Inr s1)
         \<and> main_loop e cfg lo up n s1 (i + length xs) ys = (ev2, Inr st') \<and> ev = ev1 @ ev2"
  using assms unfolding main_loop_append by (auto split: prod.splits sum.splits)

lemma main_loop_frame:
  assumes "main_loop e cfg lo up n st i cs = (ev, Inr st')"
    and "\<forall>c\<in>set cs. \<forall>t p. openImage e c = Some (t, p) \<longrightarrow> t \<noteq> tc"
  shows "out_files st' (os_path_join (output_dir cfg) (''pH_'' @ tc))
           = out_files st (os_path_join (output_dir cfg) (''pH_'' @ tc))"
  using assms
proof (induction cs arbitrary: st i ev)
  case Nil
  then show ?case by simp
next
  case (Cons c cs)
  from main_loop_Cons_Inr [OF Cons.prems(1)]
  obtain ev1 s1 ev2 where a: "process_file e cfg lo up n st i c = (ev1, Inr s1)"
    and b: "main_loop e cfg lo up n s1 (Suc i) cs = (ev2, Inr st')" by blast
  have "out_files s1 (os_path_join (output_dir cfg) (''pH_'' @ tc))
           = out_files st (os_path_join (output_dir cfg) (''pH_'' @ tc))"
    by (rule process_file_frame [OF a]) (use Cons.prems(2) in simp)
  moreover have "out_files st' (os_path_join (output_dir cfg) (''pH_'' @ tc))
           = out_files s1 (os_path_join (output_dir cfg) (''pH_'' @ tc))"
    by (rule Cons.IH [OF b]) (use Cons.prems(2) in simp)
  ultimately show ?case by simp
qed

lemma main_completes:
  assumes "calibration e cfg = (evc, Inr (lo, up))"
    and "getFileList (listing e (input_dir cfg)) (input_dir cfg) [extension_ratio cfg] = Inr files"
    and "snd (main e cfg) = Inr final"
  shows "\<exists>evl. main_loop e cfg lo up (length files) (initial_state cfg) 1 files = (evl, Inr final)
     \<and> fst (main e cfg) =
         [IJ_log ([CHR 0x5C] @ ''Clear''), timed_log ''Script starting''] @ evc @ evl @
         [timed_log ''Script finished !'', Print ''Script finished !'']"
  using assms by (auto simp: main_def Let_def split: prod.splits sum.splits)

lemma two_dirs_inputs:
  "calibration two_dirs_env demo_config = ([], Inr (Fin (D 100), Fin (D 200)))"
  "getFileList (listing two_dirs_env (input_dir demo_config)) (input_dir demo_config)
     [extension_ratio demo_config] = Inr ([] @ ''/in/x/a.tif'' # [] @ ''/in/y/a.tif'' # [])"
  "os_path_basename ''/in/x/a.tif'' = os_path_basename ''/in/y/a.tif''"
  "openImage two_dirs_env ''/in/x/a.tif'' = Some (os_path_basename ''/in/x/a.tif'', demo_image)"
  "bitDepth demo_image = 32"
  "length (ip_pixels demo_image) = ip_width demo_image * ip_height demo_image"
  "openImage two_dirs_env ''/in/y/a.tif'' = Some (os_path_basename ''/in/y/a.tif'', unit_image)"
  "bitDepth unit_image = 32"
  "length (ip_pixels unit_image) = ip_width unit_image * ip_height unit_image"
  by (simp_all add: calibration_def demo_config_def two_dirs_env_def demo_image_def unit_image_def
      os_path_basename_def getFileList_def fnmatch_def normcase_def lower_def lower_char_def
      os_path_join_def)

lemma two_dirs_run: "\<exists>final. snd (main two_dirs_env demo_config) = Inr final"
proof -
  have ne: "D 100 \<noteq> D 200" "(2::nat) \<noteq> 0" by (simp_all add: D_100_200)
  have sv: "saveAs_error two_dirs_env p = None" for p by (simp add: two_dirs_env_def)
  from one_file_output [OF ne two_dirs_inputs(4,5,6) sv,
      where st = "initial_state demo_config" and i = 1]
  obtain ev1 st1 where r1: "process_file two_dirs_env demo_config (Fin (D 100)) (Fin (D 200)) 2
        (initial_state demo_config) 1 ''/in/x/a.tif'' = (ev1, Inr st1)" by blast
  from one_file_output [OF ne two_dirs_inputs(7,8,9) sv, where st = st1 and i = 2]
  obtain ev2 st2 where r2: "process_file two_dirs_env demo_config (Fin (D 100)) (Fin (D 200)) 2
        st1 2 ''/in/y/a.tif'' = (ev2, Inr st2)" by blast
  have len: "length [''/in/x/a.tif'', ''/in/y/a.tif''] = 2" by simp
  have loop: "main_loop two_dirs_env demo_config (Fin (D 100)) (Fin (D 200))
        (length [''/in/x/a.tif'', ''/in/y/a.tif''])
        (initial_state demo_config) 1 [''/in/x/a.tif'', ''/in/y/a.tif''] = (ev1 @ ev2, Inr st2)"
    unfolding len
    by (simp only: main_loop.simps r1 r2 Suc_1 prod.case sum.case append_Nil2)
  have files: "getFileList (listing two_dirs_env (input_dir demo_config)) (input_dir demo_config)
     [extension_ratio demo_config] = Inr [''/in/x/a.tif'', ''/in/y/a.tif'']"
    using two_dirs_inputs(2) by simp
  have "snd (main two_dirs_env demo_config) = Inr st2"
    unfolding main_def two_dirs_inputs(1) files Let_def using loop
    by (simp del: main_loop.simps)
  then show ?thesis by blast
qed

text \<open>
  Claim C10. Let a run complete, and let the discovered list hold two files of the
  same base name, the first before the second, each opening as a well-formed 32-bit
  image titled with that base name. Then the run is the loop over the files before
  the first, the iteration of the first, the loop over the files between the two, the
  iteration of the second and the loop over the rest; the two iterations end with a
  save under the same title at the same path, the output directory joined with
  \<open>pH_\<close> and the base name, whatever the sub-directories; after the first, the file
  at that path is the transform of the first image; after the second it is the
  transform of the second image; and it still is when the run ends, unless a later
  file opens under the same title.
\<close>

theorem same_basename_overwrites:
  assumes "calibration e cfg = (evc, Inr (lo, up))"
    and "getFileList (listing e (input_dir cfg)) (input_dir cfg) [extension_ratio cfg]
           = Inr (pre @ f1 # mid @ f2 # post)"
    and "os_path_basename f1 = os_path_basename f2"
    and "openImage e f1 = Some (os_path_basename f1, p1)" and "bitDepth p1 = 32"
    and "length (ip_pixels p1) = ip_width p1 * ip_height p1"
    and "openImage e f2 = Some (os_path_basename f2, p2)" and "bitDepth p2 = 32"
    and "length (ip_pixels p2) = ip_width p2 * ip_height p2"
    and "snd (main e cfg) = Inr final"
  shows "\<exists>ev0 s0 ev1 s1 evm sm ev2 s2 ev3.
      main_loop e cfg lo up (length (pre @ f1 # mid @ f2 # post)) (initial_state cfg) 1 pre
        = (ev0, Inr s0)
    \<and> process_file e cfg lo up (length (pre @ f1 # mid @ f2 # post)) s0 (length pre + 1) f1
        = (ev1, Inr s1)
    \<and> main_loop e cfg lo up (length (pre @ f1 # mid @ f2 # post)) s1 (length pre + 2) mid
        = (evm, Inr sm)
    \<and> process_file e cfg lo up (length (pre @ f1 # mid @ f2 # post)) sm
        (length pre + length mid + 2) f2 = (ev2, Inr s2)
    \<and> main_loop e cfg lo up (length (pre @ f1 # mid @ f2 # post)) s2
        (length pre + length mid + 3) post = (ev3, Inr final)
    \<and> fst (main e cfg) =
        [IJ_log ([CHR 0x5C] @ ''Clear''), timed_log ''Script starting''] @ evc @
        ev0 @ ev1 @ evm @ ev2 @ ev3 @
        [timed_log ''Script finished !'', Print ''Script finished !'']
    \<and> ev1 \<noteq> [] \<and> ev2 \<noteq> []
    \<and> last ev1 = SaveAs (''pH_'' @ os_path_basename f1) ''Tiff''
                    (os_path_join (output_dir cfg) (''pH_'' @ os_path_basename f1))
    \<and> last ev2 = SaveAs (''pH_'' @ os_path_basename f1) ''Tiff''
                    (os_path_join (output_dir cfg) (''pH_'' @ os_path_basename f1))
    \<and> out_files s1 (os_path_join (output_dir cfg) (''pH_'' @ os_path_basename f1))
        = Some (''pH_'' @ os_path_basename f1, last (store s1))
    \<and> ip_pixels (last (store s1)) =
        map (out_px lo up (cB3 cfg) (cB2 cfg) (cB1 cfg) (cB0 cfg)) (ip_pixels p1)
    \<and> out_files s2 (os_path_join (output_dir cfg) (''pH_'' @ os_path_basename f1))
        = Some (''pH_'' @ os_path_basename f1, last (store s2))
    \<and> ip_pixels (last (store s2)) =
        map (out_px lo up (cB3 cfg) (cB2 cfg) (cB1 cfg) (cB0 cfg)) (ip_pixels p2)
    \<and> ((\<forall>c\<in>set post. \<forall>t p. openImage e c = Some (t, p) \<longrightarrow> t \<noteq> os_path_basename f1) \<longrightarrow>
          out_files final (os_path_join (output_dir cfg) (''pH_'' @ os_path_basename f1))
            = Some (''pH_'' @ os_path_basename f1, last (store s2)))"
proof -
  let ?n = "length (pre @ f1 # mid @ f2 # post)"
  let ?T = "''pH_'' @ os_path_basename f1"
  let ?P = "os_path_join (output_dir cfg) ?T"
  let ?f = "out_px lo up (cB3 cfg) (cB2 cfg) (cB1 cfg) (cB0 cfg)"
  from main_completes [OF assms(1,2,10)]
  obtain evl where loop: "main_loop e cfg lo up ?n (initial_state cfg) 1 (pre @ f1 # mid @ f2 # post)
        = (evl, Inr final)"
    and log: "fst (main e cfg) =
         [IJ_log ([CHR 0x5C] @ ''Clear''), timed_log ''Script starting''] @ evc @ evl @
         [timed_log ''Script finished !'', Print ''Script finished !'']"
    by blast
  from main_loop_append_Inr [OF loop]
  obtain ev0 s0 r0 where l0: "main_loop e cfg lo up ?n (initial_state cfg) 1 pre = (ev0, Inr s0)"
    and l0': "main_loop e cfg lo up ?n s0 (1 + length pre) (f1 # mid @ f2 # post) = (r0, Inr final)"
    and e0: "evl = ev0 @ r0" by blast
  from main_loop_Cons_Inr [OF l0']
  obtain ev1 s1 r1 where l1: "process_file e cfg lo up ?n s0 (1 + length pre) f1 = (ev1, Inr s1)"
    and l1': "main_loop e cfg lo up ?n s1 (Suc (1 + length pre)) (mid @ f2 # post) = (r1, Inr final)"
    and e1: "r0 = ev1 @ r1" by blast
  from main_loop_append_Inr [OF l1']
  obtain evm sm rm where lm: "main_loop e cfg lo up ?n s1 (Suc (1 + length pre)) mid = (evm, Inr sm)"
    and lm': "main_loop e cfg lo up ?n sm (Suc (1 + length pre) + length mid) (f2 # post)
        = (rm, Inr final)"
    and em: "r1 = evm @ rm" by blast
  from main_loop_Cons_Inr [OF lm']
  obtain ev2 s2 ev3 where l2: "process_file e cfg lo up ?n sm (Suc (1 + length pre) + length mid) f2
        = (ev2, Inr s2)"
    and l3: "main_loop e cfg lo up ?n s2 (Suc (Suc (1 + length pre) + length mid)) post
        = (ev3, Inr final)"
    and e2: "rm = ev2 @ ev3" by blast
  have i1: "1 + length pre = length pre + 1"
    and im: "Suc (1 + length pre) = length pre + 2"
    and i2: "Suc (1 + length pre) + length mid = length pre + length mid + 2"
    and i3: "Suc (Suc (1 + length pre) + length mid) = length pre + length mid + 3"
    by simp_all
  note l1 = l1 [unfolded i1] and lm = lm [unfolded im] and l2 = l2 [unfolded i2]
    and l3 = l3 [unfolded i3]
  from process_file_saved [OF l1 assms(4,5,6)]
  have a1: "ev1 \<noteq> []" and a2: "last ev1 = SaveAs ?T ''Tiff'' ?P"
    and a3: "out_files s1 = (out_files s0)(?P \<mapsto> (?T, last (store s1)))"
    and a4: "ip_pixels (last (store s1)) = map ?f (ip_pixels p1)"
    by blast+
  from process_file_saved [OF l2 assms(7,8,9)]
  have b1: "ev2 \<noteq> []" and b2: "last ev2 = SaveAs ?T ''Tiff'' ?P"
    and b3: "out_files s2 = (out_files sm)(?P \<mapsto> (?T, last (store s2)))"
    and b4: "ip_pixels (last (store s2)) = map ?f (ip_pixels p2)"
    unfolding assms(3) [symmetric] by blast+
  have a3': "out_files s1 ?P = Some (?T, last (store s1))" using a3 by simp
  have b3': "out_files s2 ?P = Some (?T, last (store s2))" using b3 by simp
  have fin: "out_files final ?P = Some (?T, last (store s2))"
    if "\<forall>c\<in>set post. \<forall>t p. openImage e c = Some (t, p) \<longrightarrow> t \<noteq> os_path_basename f1"
    using main_loop_frame [OF l3 that] b3' by simp
  have log': "fst (main e cfg) =
        [IJ_log ([CHR 0x5C] @ ''Clear''), timed_log ''Script starting''] @ evc @
        ev0 @ ev1 @ evm @ ev2 @ ev3 @
        [timed_log ''Script finished !'', Print ''Script finished !'']"
    unfolding log e0 e1 em e2 by simp
  show ?thesis
  proof (intro exI conjI)
    show "main_loop e cfg lo up ?n (initial_state cfg) 1 pre = (ev0, Inr s0)" by (rule l0)
    show "process_file e cfg lo up ?n s0 (length pre + 1) f1 = (ev1, Inr s1)" by (rule l1)
    show "main_loop e cfg lo up ?n s1 (length pre + 2) mid = (evm, Inr sm)" by (rule lm)
    show "process_file e cfg lo up ?n sm (length pre + length mid + 2) f2 = (ev2, Inr s2)"
      by (rule l2)
    show "main_loop e cfg lo up ?n s2 (length pre + length mid + 3) post = (ev3, Inr final)"
      by (rule l3)
    show "fst (main e cfg) =
        [IJ_log ([CHR 0x5C] @ ''Clear''), timed_log ''Script starting''] @ evc @
        ev0 @ ev1 @ evm @ ev2 @ ev3 @
        [timed_log ''Script finished !'', Print ''Script finished !'']" by (rule log')
    show "ev1 \<noteq> []" by (rule a1)
    show "ev2 \<noteq> []" by (rule b1)
    show "last ev1 = SaveAs ?T ''Tiff'' ?P" by (rule a2)
    show "last ev2 = SaveAs ?T ''Tiff'' ?P" by (rule b2)
    show "out_files s1 ?P = Some (?T, last (store s1))" by (rule a3')
    show "ip_pixels (last (store s1)) = map ?f (ip_pixels p1)" by (rule a4)
    show "out_files s2 ?P = Some (?T, last (store s2))" by (rule b3')
    show "ip_pixels (last (store s2)) = map ?f (ip_pixels p2)" by (rule b4)
    show "(\<forall>c\<in>set post. \<forall>t p. openImage e c = Some (t, p) \<longrightarrow> t \<noteq> os_path_basename f1) \<longrightarrow>
          out_files final ?P = Some (?T, last (store s2))"
      using fin by blast
  qed
qed

theorem same_basename_overwrites_witness:
  "calibration two_dirs_env demo_config = ([], Inr (Fin (D 100), Fin (D 200)))
   \<and> getFileList (listing two_dirs_env (input_dir demo_config)) (input_dir demo_config)
        [extension_ratio demo_config] = Inr [''/in/x/a.tif'', ''/in/y/a.tif'']
   \<and> os_path_basename ''/in/x/a.tif'' = os_path_basename ''/in/y/a.tif''
   \<and> openImage two_dirs_env ''/in/x/a.tif'' = Some (os_path_basename ''/in/x/a.tif'', demo_image)
   \<and> bitDepth demo_image = 32
   \<and> length (ip_pixels demo_image) = ip_width demo_image * ip_height demo_image
   \<and> openImage two_dirs_env ''/in/y/a.tif'' = Some (os_path_basename ''/in/y/a.tif'', unit_image)
   \<and> bitDepth unit_image = 32
   \<and> length (ip_pixels unit_image) = ip_width unit_image * ip_height unit_image
   \<and> (\<exists>final ev1 s1 ev2 s2.
        snd (main two_dirs_env demo_config) = Inr final
      \<and> process_file two_dirs_env demo_config (Fin (D 100)) (Fin (D 200)) 2
          (initial_state demo_config) 1 ''/in/x/a.tif'' = (ev1, Inr s1)
      \<and> process_file two_dirs_env demo_config (Fin (D 100)) (Fin (D 200)) 2 s1 2
          ''/in/y/a.tif'' = (ev2, Inr s2)
      \<and> last ev1 = SaveAs ''pH_a.tif'' ''Tiff'' ''/out/pH_a.tif''
      \<and> last ev2 = SaveAs ''pH_a.tif'' ''Tiff'' ''/out/pH_a.tif''
      \<and> out_files s1 ''/out/pH_a.tif'' = Some (''pH_a.tif'', last (store s1))
      \<and> length (ip_pixels (last (store s1))) = 3
      \<and> out_files s2 ''/out/pH_a.tif'' = Some (''pH_a.tif'', last (store s2))
      \<and> length (ip_pixels (last (store s2))) = 1
      \<and> out_files final ''/out/pH_a.tif'' = Some (''pH_a.tif'', last (store s2)))"
proof -
  note h = two_dirs_inputs
  obtain final where fin: "snd (main two_dirs_env demo_config) = Inr final"
    using two_dirs_run by blast
  have names: "''pH_'' @ os_path_basename ''/in/x/a.tif'' = ''pH_a.tif''"
    "os_path_join (output_dir demo_config) ''pH_a.tif'' = ''/out/pH_a.tif''"
    by (simp_all add: os_path_basename_def os_path_join_def demo_config_def)
  have idx: "length ([]::string list) + 1 = 1" "length ([]::string list) + 2 = 2"
    "length ([]::string list) + length ([]::string list) + 2 = 2"
    "length ([] @ ''/in/x/a.tif'' # [] @ ''/in/y/a.tif'' # []) = 2"
    by simp_all
  have none: "\<forall>c\<in>set ([]::string list). \<forall>t p. openImage two_dirs_env c = Some (t, p) \<longrightarrow>
      t \<noteq> os_path_basename ''/in/x/a.tif''" by simp
  from same_basename_overwrites [OF h fin] none
  obtain s0 ev1 s1 sm ev2 s2 where
    r1: "process_file two_dirs_env demo_config (Fin (D 100)) (Fin (D 200)) 2 s0 1 ''/in/x/a.tif''
        = (ev1, Inr s1)"
    and rm: "\<exists>evm. main_loop two_dirs_env demo_config (Fin (D 100)) (Fin (D 200)) 2 s1 2 [] = (evm, Inr sm)"
    and r2: "process_file two_dirs_env demo_config (Fin (D 100)) (Fin (D 200)) 2 sm 2 ''/in/y/a.tif''
        = (ev2, Inr s2)"
    and s0: "\<exists>ev0. main_loop two_dirs_env demo_config (Fin (D 100)) (Fin (D 200)) 2
        (initial_state demo_config) 1 [] = (ev0, Inr s0)"
    and ev: "last ev1 = SaveAs ''pH_a.tif'' ''Tiff'' ''/out/pH_a.tif''"
      "last ev2 = SaveAs ''pH_a.tif'' ''Tiff'' ''/out/pH_a.tif''"
    and o1: "out_files s1 ''/out/pH_a.tif'' = Some (''pH_a.tif'', last (store s1))"
    and p1: "ip_pixels (last (store s1)) =
         map (out_px (Fin (D 100)) (Fin (D 200)) (cB3 demo_config) (cB2 demo_config)
                (cB1 demo_config) (cB0 demo_config)) (ip_pixels demo_image)"
    and o2: "out_files s2 ''/out/pH_a.tif'' = Some (''pH_a.tif'', last (store s2))"
    and p2: "ip_pixels (last (store s2)) =
         map (out_px (Fin (D 100)) (Fin (D 200)) (cB3 demo_config) (cB2 demo_config)
                (cB1 demo_config) (cB0 demo_config)) (ip_pixels unit_image)"
    and of: "out_files final ''/out/pH_a.tif'' = Some (''pH_a.tif'', last (store s2))"
    unfolding names idx by blast
  have s0': "s0 = initial_state demo_config" using s0 by simp
  have sm': "sm = s1" using rm by simp
  have "length (ip_pixels (last (store s1))) = 3" "length (ip_pixels (last (store s2))) = 1"
    unfolding p1 p2 by (simp_all add: demo_image_def unit_image_def)
  with fin r1 r2 ev o1 o2 of have "\<exists>final ev1 s1 ev2 s2.
        snd (main two_dirs_env demo_config) = Inr final
      \<and> process_file two_dirs_env demo_config (Fin (D 100)) (Fin (D 200)) 2
          (initial_state demo_config) 1 ''/in/x/a.tif'' = (ev1, Inr s1)
      \<and> process_file two_dirs_env demo_config (Fin (D 100)) (Fin (D 200)) 2 s1 2
          ''/in/y/a.tif'' = (ev2, Inr s2)
      \<and> last ev1 = SaveAs ''pH_a.tif'' ''Tiff'' ''/out/pH_a.tif''
      \<and> last ev2 = SaveAs ''pH_a.tif'' ''Tiff'' ''/out/pH_a.tif''
      \<and> out_files s1 ''/out/pH_a.tif'' = Some (''pH_a.tif'', last (store s1))
      \<and> length (ip_pixels (last (store s1))) = 3
      \<and> out_files s2 ''/out/pH_a.tif'' = Some (''pH_a.tif'', last (store s2))
      \<and> length (ip_pixels (last (store s2))) = 1
      \<and> out_files final ''/out/pH_a.tif'' = Some (''pH_a.tif'', last (store s2))"
    unfolding s0' sm' by blast
  then show ?thesis using h by simp
qed

section \<open>The look-up table\<close>











end
